theory Spec2Isabelle
  imports Main "HOL-Library.Word"
begin

section \<open>The object stream of the transport package (send side)\<close>

text \<open>
  A shallow embedding of the methods of \<^verbatim>\<open>Stream\<close> and \<^verbatim>\<open>lz4Stream\<close> of package
  \<^verbatim>\<open>transport\<close>: completion handling (\<^verbatim>\<open>doCmpl\<close>, \<^verbatim>\<open>cmplLoop\<close>, \<^verbatim>\<open>abortPending\<close>,
  \<^verbatim>\<open>drain\<close>), termination, the \<^verbatim>\<open>Read\<close> state machine with \<^verbatim>\<open>sendHdr\<close>,
  \<^verbatim>\<open>sendData\<close> and \<^verbatim>\<open>eoObj\<close>, the idle tick, and the compressing reader.

  Go's \<^verbatim>\<open>int64\<close> is \<^typ>\<open>64 word\<close>, read as two's complement by \<^const>\<open>sint\<close>;
  a byte is \<^typ>\<open>8 word\<close>; a pointer or interface value that may be \<^verbatim>\<open>nil\<close> is an
  \<^typ>\<open>'a option\<close> over an address.
\<close>

type_synonym int64 = "64 word"
type_synonym byte = "8 word"

subsection \<open>Errors\<close>

text \<open>
  One constructor for each error the code creates or compares with: \<^verbatim>\<open>io.EOF\<close>, the
  three \<^verbatim>\<open>fmt.Errorf\<close> sites (of \<^verbatim>\<open>Read\<close>, \<^verbatim>\<open>sendData\<close> and \<^verbatim>\<open>eoObj\<close>, with the
  numbers they format), and the errors that come from outside (an object's reader, the
  cause of a termination), told apart by a number.
\<close>

datatype error =
    EOF
  | ErrClosedPriorToStopping
  | ErrReadShorter int64 int64
  | ErrOffsetNeSize int64
  | ErrExternal nat

subsection \<open>Objects\<close>

record ObjectAttrs =
  Size :: int64
  Atime :: int64
  CksumType :: string
  CksumValue :: string
  Version :: string

record ObjHdr =
  Bck :: string
  ObjName :: string
  Opaque :: "byte list"
  ObjAttrs :: ObjectAttrs

text \<open>
  \<^verbatim>\<open>Reader\<close> is an interface value, \<^verbatim>\<open>Callback\<close> a function value, \<^verbatim>\<open>CmplPtr\<close> an
  unsafe pointer and \<^verbatim>\<open>prc\<close> a pointer to an atomic counter: each is the address of
  something that lives outside the object, or \<^verbatim>\<open>nil\<close>. Copies of an \<^verbatim>\<open>Obj\<close> share
  what these addresses name.
\<close>

record Obj =
  Hdr :: ObjHdr
  Reader :: "nat option"
  Callback :: "nat option"
  CmplPtr :: "nat option"
  prc :: "nat option"

text \<open>The zero values of the three structs, as Go's composite literals leave them.\<close>

definition ObjectAttrs0 :: ObjectAttrs where
  "ObjectAttrs0 = \<lparr>Size = 0, Atime = 0, CksumType = [], CksumValue = [], Version = []\<rparr>"

definition ObjHdr0 :: ObjHdr where
  "ObjHdr0 = \<lparr>Bck = [], ObjName = [], Opaque = [], ObjAttrs = ObjectAttrs0\<rparr>"

definition Obj0 :: Obj where
  "Obj0 = \<lparr>Hdr = ObjHdr0, Reader = None, Callback = None, CmplPtr = None, prc = None\<rparr>"

text \<open>\<^verbatim>\<open>Obj{Hdr: ObjHdr{ObjAttrs: ObjectAttrs{Size: m}}}\<close>, the literal of both markers.\<close>

definition marker :: "int64 \<Rightarrow> Obj" where
  "marker m = Obj0\<lparr>Hdr := ObjHdr0\<lparr>ObjAttrs := ObjectAttrs0\<lparr>Size := m\<rparr>\<rparr>\<rparr>"

subsection \<open>What the package declares outside these methods\<close>

text \<open>
  The sentinels of the size field, the in-send enum and the header serialiser are
  declared in files that are not part of the sources at hand. They are parameters of the
  model: no property below depends on their values. \<^verbatim>\<open>insObjHeader\<close> is given as the bytes it
  writes into \<^verbatim>\<open>maxheader\<close>; the length it returns is their number.
\<close>

record extern =
  lastMarker :: int64
  tickMarker :: int64
  SizeUnknown :: int64
  inHdr :: int
  inPDU :: int
  inData :: int
  inEOB :: int
  insObjHeader :: "ObjHdr \<Rightarrow> bool \<Rightarrow> byte list"

definition hdr_IsLast :: "extern \<Rightarrow> ObjHdr \<Rightarrow> bool" where
  "hdr_IsLast c hdr \<longleftrightarrow> Size (ObjAttrs hdr) = lastMarker c"

definition hdr_IsUnsized :: "extern \<Rightarrow> ObjHdr \<Rightarrow> bool" where
  "hdr_IsUnsized c hdr \<longleftrightarrow> Size (ObjAttrs hdr) = SizeUnknown c"

definition IsLast :: "extern \<Rightarrow> Obj \<Rightarrow> bool" where
  "IsLast c obj \<longleftrightarrow> hdr_IsLast c (Hdr obj)"

definition IsIdleTick :: "extern \<Rightarrow> Obj \<Rightarrow> bool" where
  "IsIdleTick c obj \<longleftrightarrow> Size (ObjAttrs (Hdr obj)) = tickMarker c"

definition IsHeaderOnly :: "extern \<Rightarrow> Obj \<Rightarrow> bool" where
  "IsHeaderOnly c obj \<longleftrightarrow> Size (ObjAttrs (Hdr obj)) = 0 \<or> hdr_IsLast c (Hdr obj)"

definition IsUnsized :: "extern \<Rightarrow> Obj \<Rightarrow> bool" where
  "IsUnsized c obj \<longleftrightarrow> hdr_IsUnsized c (Hdr obj)"

subsection \<open>The stream and the part of the world its methods act on\<close>

record sendoff =
  obj :: Obj
  off :: int64
  ins :: int

record cmpl =
  cmpl_obj :: Obj
  cmpl_err :: "error option"

datatype sess = inactive | active

text \<open>
  What the methods do to their surroundings is recorded as a sequence of events, in the
  order the calls are made: the two call sites of the sent-callback in \<^verbatim>\<open>doCmpl\<close> (with
  the callback called and its four arguments), \<^verbatim>\<open>cmn.Close\<close> of a reader,
  \<^verbatim>\<open>FreeSend\<close> of an object, and the calls of the compressing reader: \<^verbatim>\<open>zw.Write\<close> (with
  the number of bytes written), \<^verbatim>\<open>zw.Flush\<close>, \<^verbatim>\<open>sgl.Read\<close> (with the number of bytes
  it returned) and \<^verbatim>\<open>runtime.Gosched\<close>.
\<close>

datatype event =
    ObjCallback nat ObjHdr "nat option" "nat option" "error option"
  | StreamCallback nat ObjHdr "nat option" "nat option" "error option"
  | Close nat
  | FreeSend Obj
  | ZwWrite nat
  | ZwFlush
  | SglRead nat
  | Gosched

text \<open>
  The fields of \<^verbatim>\<open>Stream\<close> (with those of the embedded \<^verbatim>\<open>streamBase\<close> and of
  \<^verbatim>\<open>lz4s\<close> that the methods use), followed by the heap and environment.

  \<^item> A channel is the list of the elements it buffers, oldest first, and a flag that
    says whether it has been closed. Its capacity is not modelled: a send that would
    wait for room is described at the moment it completes. A send on a closed channel
    panics, and that is a branch of the model.
  \<^item> \<^verbatim>\<open>stopCh\<close> and \<^verbatim>\<open>lastCh\<close> are one-shot signals: only whether they have been
    closed matters.
  \<^item> The model covers streams without PDU framing: \<^verbatim>\<open>s.pdu\<close> is \<^verbatim>\<open>nil\<close>.
  \<^item> \<^verbatim>\<open>lz4s_on\<close> is \<^verbatim>\<open>s.lz4s.s == s\<close>; \<^verbatim>\<open>zw\<close> is the state of the lz4 writer
    (\<^verbatim>\<open>nil\<close> before the first request), of a type \<open>'z\<close> the model does not look into;
    \<^verbatim>\<open>sgl\<close> is the bytes written to the SGL and not yet read.
  \<^item> \<^verbatim>\<open>prcs\<close> is the store of the atomic counters that \<^verbatim>\<open>prc\<close> fields point to.
  \<^item> \<^verbatim>\<open>readers\<close> gives, for each reader, what its next calls of \<^verbatim>\<open>Read\<close> return:
    the bytes stored into the buffer and the error.
  \<^item> \<^verbatim>\<open>picks\<close> holds the choices Go's runtime makes in a \<^verbatim>\<open>select\<close> with both cases
    ready (it chooses at random): \<open>True\<close> takes the \<^verbatim>\<open>stopCh\<close> case.
  \<^item> \<^verbatim>\<open>events\<close> is the record of calls described above.
\<close>

record 'z Stream =
  workCh :: "Obj list"
  workCh_closed :: bool
  cmplCh :: "cmpl list"
  cmplCh_closed :: bool
  callback :: "nat option"
  sendoff :: sendoff
  header :: "byte list"
  maxheader :: nat
  lz4s_on :: bool
  zw :: "'z option"
  sgl :: "byte list"
  sgl_freed :: bool
  stats_Num :: int64
  stats_Size :: int64
  stats_Offset :: int64
  stats_CompressedSize :: int64
  Numcur :: int64
  Sizecur :: int64
  terminated :: bool
  term_err :: "error option"
  stopCh_closed :: bool
  lastCh_closed :: bool
  sessST :: sess
  time_inSend :: bool
  wg :: int
  registered :: bool
  prcs :: "nat \<Rightarrow> int64"
  readers :: "nat \<Rightarrow> (byte list \<times> error option) list"
  picks :: "bool list"
  events :: "event list"

text \<open>How a method ends: it returns, it waits on a channel that is empty and open, or it
  panics.\<close>

datatype status = Returned | Blocked | Panicked

subsection \<open>Completions\<close>

text \<open>
  \<^verbatim>\<open>doCmpl\<close>. \<^verbatim>\<open>debug.Assert(rc >= 0)\<close> is compiled only into debug builds and is not a
  branch here. \<^verbatim>\<open>rc\<close> stays 0 when \<^verbatim>\<open>prc\<close> is \<^verbatim>\<open>nil\<close>.
\<close>

definition doCmpl :: "'z Stream \<Rightarrow> Obj \<Rightarrow> error option \<Rightarrow> 'z Stream" where
  "doCmpl s ob err =
     (let rc = (case prc ob of None \<Rightarrow> 0 | Some p \<Rightarrow> prcs s p - 1);
          s1 = (case prc ob of None \<Rightarrow> s | Some p \<Rightarrow> s\<lparr>prcs := (prcs s)(p := rc)\<rparr>);
          s2 = (if rc = 0 then
                  (case Callback ob of
                     Some f \<Rightarrow>
                       s1\<lparr>events := events s1 @ [ObjCallback f (Hdr ob) (Reader ob) (CmplPtr ob) err]\<rparr>
                   | None \<Rightarrow>
                       (case callback s1 of
                          Some g \<Rightarrow>
                            s1\<lparr>events := events s1 @
                                 [StreamCallback g (Hdr ob) (Reader ob) (CmplPtr ob) err]\<rparr>
                        | None \<Rightarrow> s1))
                else s1);
          s3 = (case Reader ob of
                  Some r \<Rightarrow> s2\<lparr>events := events s2 @ [Close r]\<rparr>
                | None \<Rightarrow> s2)
      in s3\<lparr>events := events s3 @ [FreeSend ob]\<rparr>)"

text \<open>
  \<^verbatim>\<open>cmplLoop\<close>. A receive from a closed and empty channel yields \<^verbatim>\<open>ok == false\<close>, and
  the loop breaks; from an open and empty one it waits. \<^verbatim>\<open>s.wg.Done()\<close> takes one off
  the wait group's counter.
\<close>

function cmplLoop :: "extern \<Rightarrow> 'z Stream \<Rightarrow> status \<times> 'z Stream" where
  "cmplLoop c s =
     (case cmplCh s of
        [] \<Rightarrow> (if cmplCh_closed s then (Returned, s\<lparr>wg := wg s - 1\<rparr>) else (Blocked, s))
      | x # xs \<Rightarrow>
          (if IsLast c (cmpl_obj x) then (Returned, s\<lparr>cmplCh := xs, wg := wg s - 1\<rparr>)
           else cmplLoop c (doCmpl (s\<lparr>cmplCh := xs\<rparr>) (cmpl_obj x) (cmpl_err x))))"
  by pat_completeness auto
termination
  by (relation "measure (\<lambda>(c, s). length (cmplCh s))")
    (auto simp: doCmpl_def Let_def split: option.splits)

text \<open>
  \<^verbatim>\<open>abortPending\<close>: its two \<^verbatim>\<open>range\<close> loops, each of which ends when its channel is
  closed and empty, and waits when it is open and empty.
\<close>

function abortPending_workCh :: "'z Stream \<Rightarrow> error option \<Rightarrow> status \<times> 'z Stream" where
  "abortPending_workCh s err =
     (case workCh s of
        [] \<Rightarrow> (if workCh_closed s then (Returned, s) else (Blocked, s))
      | ob # obs \<Rightarrow> abortPending_workCh (doCmpl (s\<lparr>workCh := obs\<rparr>) ob err) err)"
  by pat_completeness auto
termination
  by (relation "measure (\<lambda>(s, err). length (workCh s))")
    (auto simp: doCmpl_def Let_def split: option.splits)

function abortPending_cmplCh :: "extern \<Rightarrow> 'z Stream \<Rightarrow> status \<times> 'z Stream" where
  "abortPending_cmplCh c s =
     (case cmplCh s of
        [] \<Rightarrow> (if cmplCh_closed s then (Returned, s) else (Blocked, s))
      | x # xs \<Rightarrow>
          (if \<not> IsLast c (cmpl_obj x)
           then abortPending_cmplCh c (doCmpl (s\<lparr>cmplCh := xs\<rparr>) (cmpl_obj x) (cmpl_err x))
           else abortPending_cmplCh c (s\<lparr>cmplCh := xs\<rparr>)))"
  by pat_completeness auto
termination
  by (relation "measure (\<lambda>(c, s). length (cmplCh s))")
    (auto simp: doCmpl_def Let_def split: option.splits)

definition abortPending :: "extern \<Rightarrow> 'z Stream \<Rightarrow> error option \<Rightarrow> bool \<Rightarrow> status \<times> 'z Stream" where
  "abortPending c s err completions =
     (case abortPending_workCh s err of
        (Returned, s1) \<Rightarrow> (if completions then abortPending_cmplCh c s1 else (Returned, s1))
      | r \<Rightarrow> r)"

text \<open>
  \<^verbatim>\<open>drain\<close>: the \<^verbatim>\<open>select\<close> with a \<^verbatim>\<open>default\<close> never waits. On a closed and empty
  \<^verbatim>\<open>workCh\<close> the receive is ready and yields a \<^verbatim>\<open>nil\<close> object, which \<^verbatim>\<open>doCmpl\<close>
  dereferences.
\<close>

function drain :: "'z Stream \<Rightarrow> status \<times> 'z Stream" where
  "drain s =
     (case workCh s of
        [] \<Rightarrow> (if workCh_closed s then (Panicked, s) else (Returned, s))
      | ob # obs \<Rightarrow> drain (doCmpl (s\<lparr>workCh := obs\<rparr>) ob (term_err s)))"
  by pat_completeness auto
termination
  by (relation "measure (\<lambda>s. length (workCh s))")
    (auto simp: doCmpl_def Let_def split: option.splits)

subsection \<open>Termination\<close>

text \<open>
  The writer of the lz4 package is outside the repository. It is a parameter: its
  \<^verbatim>\<open>Write\<close> and \<^verbatim>\<open>Flush\<close> are functions of the writer's state that give the new state
  and the compressed bytes they emit into the SGL; \<^verbatim>\<open>Reset(nil)\<close> gives the new state.
\<close>

record 'z lz4_Writer =
  zw_Write :: "'z \<Rightarrow> byte list \<Rightarrow> 'z \<times> byte list"
  zw_Flush :: "'z \<Rightarrow> 'z \<times> byte list"
  zw_Reset :: "'z \<Rightarrow> 'z"

definition compressed :: "'z Stream \<Rightarrow> bool" where
  "compressed s \<longleftrightarrow> lz4s_on s"

definition usePDU :: "'z Stream \<Rightarrow> bool" where
  "usePDU s \<longleftrightarrow> False"

text \<open>Modelled from the spec: \<^verbatim>\<open>Stop\<close> belongs to \<^verbatim>\<open>streamBase\<close>, which is not among
  the sources. The spec: it closes \<^verbatim>\<open>stopCh\<close> and does not drain SQ.\<close>

definition Stop :: "'z Stream \<Rightarrow> 'z Stream" where
  "Stop s = s\<lparr>stopCh_closed := True\<rparr>"

text \<open>
  \<^verbatim>\<open>terminate\<close>. \<^verbatim>\<open>cmn.Assert\<close> panics when its argument is false. The mutex has no
  effect in a sequential run. \<^verbatim>\<open>gc.remove\<close> takes the stream out of the collector's
  registry; \<^verbatim>\<open>sgl.Free()\<close> gives the SGL back to its arena.
\<close>

definition terminate :: "extern \<Rightarrow> 'z lz4_Writer \<Rightarrow> 'z Stream \<Rightarrow> status \<times> 'z Stream" where
  "terminate c lz s =
     (if terminated s then (Panicked, s)
      else
        let s1 = Stop (s\<lparr>terminated := True\<rparr>) in
        if cmplCh_closed s1 then (Panicked, s1)
        else
          let s2 = s1\<lparr>cmplCh := cmplCh s1 @
                      [\<lparr>cmpl_obj = marker (lastMarker c), cmpl_err = term_err s1\<rparr>]\<rparr>;
              s3 = s2\<lparr>registered := False\<rparr>
          in if compressed s3
             then (Returned, s3\<lparr>sgl_freed := True, zw := map_option (zw_Reset lz) (zw s3)\<rparr>)
             else (Returned, s3))"

subsection \<open>End of object\<close>

text \<open>
  \<^verbatim>\<open>eoObj\<close>. The result is \<open>None\<close> when the send on \<^verbatim>\<open>cmplCh\<close> panics (the channel
  is closed). Logging is left out.
\<close>

definition eoObj :: "extern \<Rightarrow> 'z Stream \<Rightarrow> error option \<Rightarrow> 'z Stream option" where
  "eoObj c s err =
     (let so = sendoff s;
          objSize = (if IsUnsized c (obj so) then off so else Size (ObjAttrs (Hdr (obj so))));
          s1 = s\<lparr>Sizecur := Sizecur s + off so, stats_Offset := stats_Offset s + off so\<rparr>;
          err1 = (if err \<noteq> None then err
                  else if off so \<noteq> objSize then Some (ErrOffsetNeSize (off so))
                  else None);
          s2 = (if err \<noteq> None then s1
                else if off so \<noteq> objSize then s1
                else s1\<lparr>stats_Size := stats_Size s1 + objSize,
                        Numcur := Numcur s1 + 1,
                        stats_Num := stats_Num s1 + 1\<rparr>)
      in if cmplCh_closed s2 then None
         else Some (s2\<lparr>cmplCh := cmplCh s2 @ [\<lparr>cmpl_obj = obj so, cmpl_err = err1\<rparr>],
                       sendoff := \<lparr>obj = Obj0, off = 0, ins = inEOB c\<rparr>\<rparr>))"

definition inSend :: "extern \<Rightarrow> 'z Stream \<Rightarrow> bool" where
  "inSend c s \<longleftrightarrow> inHdr c \<le> ins (sendoff s) \<or> ins (sendoff s) < inEOB c"

definition errCmpl :: "extern \<Rightarrow> 'z Stream \<Rightarrow> error option \<Rightarrow> status \<times> 'z Stream" where
  "errCmpl c s err =
     (if inSend c s then
        (if cmplCh_closed s then (Panicked, s)
         else (Returned, s\<lparr>cmplCh := cmplCh s @ [\<lparr>cmpl_obj = obj (sendoff s), cmpl_err = err\<rparr>]\<rparr>))
      else (Returned, s))"

subsection \<open>The stream as a reader\<close>

text \<open>What a call of \<^verbatim>\<open>Read(b)\<close> gives: the bytes it stored into \<^verbatim>\<open>b\<close> (\<^verbatim>\<open>n\<close> is their
  number) and the error; or the call waits; or it panics.\<close>

datatype read_res = Ret "byte list" "error option" | Waits | Panics

text \<open>
  \<^verbatim>\<open>sendHdr\<close>, for a buffer of \<open>blen\<close> bytes. Slicing \<^verbatim>\<open>s.header\<close> from an offset
  outside it panics.
\<close>

definition sendHdr :: "extern \<Rightarrow> 'z Stream \<Rightarrow> nat \<Rightarrow> read_res \<times> 'z Stream" where
  "sendHdr c s blen =
     (let so = sendoff s in
      if sint (off so) < 0 \<or> int (length (header s)) < sint (off so) then (Panics, s)
      else
        let bs = take blen (drop (nat (sint (off so))) (header s));
            off1 = off so + word_of_nat (length bs);
            s1 = s\<lparr>sendoff := so\<lparr>off := off1\<rparr>\<rparr>
        in if sint off1 < sint (word_of_nat (length (header s)) :: int64) then (Ret bs None, s1)
           else
             let s2 = s1\<lparr>stats_Offset := stats_Offset s1 + off1\<rparr>;
                 ins1 = (if usePDU s2 \<and> \<not> IsHeaderOnly c (obj so) then inPDU c else inData c);
                 s3 = s2\<lparr>sendoff := so\<lparr>ins := ins1, off := 0\<rparr>\<rparr>
             in if IsLast c (obj so) then (Ret bs (Some EOF), s3\<lparr>lastCh_closed := True\<rparr>)
                else (Ret bs None, s3))"

text \<open>
  \<^verbatim>\<open>sendData\<close>. A \<^verbatim>\<open>nil\<close> reader panics. The reader's answer is the next entry of its
  script; a reader whose script is used up returns no bytes and \<^verbatim>\<open>io.EOF\<close>.
\<close>

definition sendData :: "extern \<Rightarrow> 'z Stream \<Rightarrow> nat \<Rightarrow> read_res \<times> 'z Stream" where
  "sendData c s blen =
     (let so = sendoff s;
          objSize = Size (ObjAttrs (Hdr (obj so)))
      in case Reader (obj so) of
           None \<Rightarrow> (Panics, s)
         | Some r \<Rightarrow>
             let bs = (case readers s r of [] \<Rightarrow> [] | x # xs \<Rightarrow> fst x);
                 err = (case readers s r of [] \<Rightarrow> Some EOF | x # xs \<Rightarrow> snd x);
                 off1 = off so + word_of_nat (length bs);
                 s1 = s\<lparr>readers := (readers s)(r := tl (readers s r)),
                        sendoff := so\<lparr>off := off1\<rparr>\<rparr>
             in if err \<noteq> None then
                  (if err = Some EOF then
                     (if sint off1 < sint objSize
                      then (Ret bs (Some (ErrReadShorter off1 objSize)), s1)
                      else (case eoObj c s1 None of
                              None \<Rightarrow> (Panics, s1)
                            | Some s2 \<Rightarrow> (Ret bs None, s2)))
                   else (case eoObj c s1 err of
                           None \<Rightarrow> (Panics, s1)
                         | Some s2 \<Rightarrow> (Ret bs err, s2)))
                else if sint objSize \<le> sint off1 then
                  (case eoObj c s1 err of
                     None \<Rightarrow> (Panics, s1)
                   | Some s2 \<Rightarrow> (Ret bs err, s2))
                else (Ret bs err, s1))"

text \<open>Modelled from the spec: \<^verbatim>\<open>deactivate\<close> belongs to \<^verbatim>\<open>streamBase\<close>, which is not
  among the sources. The spec: it flips \<^verbatim>\<open>sessST\<close> to \<^verbatim>\<open>inactive\<close> and returns 0, nil.\<close>

definition deactivate :: "'z Stream \<Rightarrow> read_res \<times> 'z Stream" where
  "deactivate s = (Ret [] None, s\<lparr>sessST := inactive\<rparr>)"

text \<open>
  The \<^verbatim>\<open>select\<close> of \<^verbatim>\<open>Read\<close>: which case runs. The receive from \<^verbatim>\<open>workCh\<close> is ready
  when the channel holds an element or is closed; the \<^verbatim>\<open>stopCh\<close> case is ready once
  \<^verbatim>\<open>stopCh\<close> is closed. With both ready the next of \<^verbatim>\<open>picks\<close> decides (and the receive
  is taken when none is left); with neither the call waits.
\<close>

datatype sel = SelWork | SelStop | SelNone

definition select_Read :: "'z Stream \<Rightarrow> sel" where
  "select_Read s =
     (if (workCh s \<noteq> [] \<or> workCh_closed s) \<and> stopCh_closed s
      then (case picks s of [] \<Rightarrow> SelWork | p # ps \<Rightarrow> (if p then SelStop else SelWork))
      else if workCh s \<noteq> [] \<or> workCh_closed s then SelWork
      else if stopCh_closed s then SelStop
      else SelNone)"

definition picked :: "'z Stream \<Rightarrow> 'z Stream" where
  "picked s =
     (if (workCh s \<noteq> [] \<or> workCh_closed s) \<and> stopCh_closed s
      then s\<lparr>picks := tl (picks s)\<rparr> else s)"

text \<open>
  \<^verbatim>\<open>Read\<close> from the label \<^verbatim>\<open>repeat\<close> on. \<^verbatim>\<open>s.maxheader[:l]\<close> panics when \<^verbatim>\<open>l\<close> exceeds
  the capacity of \<^verbatim>\<open>maxheader\<close>.
\<close>

function Read_repeat :: "extern \<Rightarrow> 'z Stream \<Rightarrow> nat \<Rightarrow> read_res \<times> 'z Stream" where
  "Read_repeat c s blen =
     (case select_Read s of
        SelNone \<Rightarrow> (Waits, s)
      | SelStop \<Rightarrow> (Ret [] (Some EOF), picked s)
      | SelWork \<Rightarrow>
          (case workCh s of
             [] \<Rightarrow> (Ret [] (Some ErrClosedPriorToStopping), picked s)
           | ob # obs \<Rightarrow>
               (let s1 = (picked s)\<lparr>workCh := obs, sendoff := (sendoff s)\<lparr>obj := ob\<rparr>\<rparr>
                in if IsIdleTick c ob then
                     (if length obs > 0 then Read_repeat c s1 blen else deactivate s1)
                   else
                     (let h = insObjHeader c (Hdr ob) (usePDU s1)
                      in if maxheader s1 < length h then (Panics, s1)
                         else sendHdr c (s1\<lparr>header := h,
                                            sendoff := (sendoff s1)\<lparr>ins := inHdr c\<rparr>\<rparr>) blen))))"
  by pat_completeness auto
termination
  by (relation "measure (\<lambda>(c, s, blen). length (workCh s))") auto

text \<open>\<^verbatim>\<open>Read\<close>. With \<^verbatim>\<open>s.pdu == nil\<close> the case \<^verbatim>\<open>inPDU\<close> dereferences a nil pointer.\<close>

definition Read :: "extern \<Rightarrow> 'z Stream \<Rightarrow> nat \<Rightarrow> read_res \<times> 'z Stream" where
  "Read c s0 blen =
     (let s = s0\<lparr>time_inSend := True\<rparr> in
      if \<not> inSend c s then Read_repeat c s blen
      else if ins (sendoff s) = inData c then
        (if \<not> IsHeaderOnly c (obj (sendoff s)) then sendData c s blen
         else if \<not> IsLast c (obj (sendoff s)) then
           (case eoObj c s None of
              None \<Rightarrow> (Panics, s)
            | Some s1 \<Rightarrow> Read_repeat c s1 blen)
         else (Ret [] (Some EOF), s))
      else if ins (sendoff s) = inPDU c then (Panics, s)
      else if ins (sendoff s) = inHdr c then sendHdr c s blen
      else Read_repeat c s blen)"

text \<open>\<^verbatim>\<open>idleTick\<close>. The compare-and-swap is tried only when \<^verbatim>\<open>workCh\<close> is empty.\<close>

definition idleTick :: "extern \<Rightarrow> 'z Stream \<Rightarrow> status \<times> 'z Stream" where
  "idleTick c s =
     (if length (workCh s) = 0 \<and> sessST s = active then
        (let s1 = s\<lparr>sessST := inactive\<rparr>
         in if workCh_closed s1 then (Panicked, s1)
            else (Returned, s1\<lparr>workCh := workCh s1 @ [marker (tickMarker c)]\<rparr>))
      else (Returned, s))"

subsection \<open>The compressing reader\<close>

text \<open>
  \<^verbatim>\<open>lz4s.zw.Write(p)\<close> and \<^verbatim>\<open>lz4s.zw.Flush()\<close>: what the writer emits is appended to
  the SGL. Their results are discarded by the code. A \<^verbatim>\<open>nil\<close> writer panics (\<open>None\<close>).
\<close>

definition lz4s_zw_Write :: "'z lz4_Writer \<Rightarrow> 'z Stream \<Rightarrow> byte list \<Rightarrow> 'z Stream option" where
  "lz4s_zw_Write lz s p =
     (case zw s of
        None \<Rightarrow> None
      | Some z \<Rightarrow>
          Some (s\<lparr>zw := Some (fst (zw_Write lz z p)),
                  sgl := sgl s @ snd (zw_Write lz z p),
                  events := events s @ [ZwWrite (length p)]\<rparr>))"

definition lz4s_zw_Flush :: "'z lz4_Writer \<Rightarrow> 'z Stream \<Rightarrow> 'z Stream option" where
  "lz4s_zw_Flush lz s =
     (case zw s of
        None \<Rightarrow> None
      | Some z \<Rightarrow>
          Some (s\<lparr>zw := Some (fst (zw_Flush lz z)),
                  sgl := sgl s @ snd (zw_Flush lz z),
                  events := events s @ [ZwFlush]\<rparr>))"

text \<open>Modelled from the spec: the SGL of package \<^verbatim>\<open>memsys\<close> is not among the sources.
  The spec: a growable byte buffer, whose bytes are drained out to \<^verbatim>\<open>b\<close>. \<^verbatim>\<open>Read(b)\<close>
  takes as many of the unread bytes as \<^verbatim>\<open>b\<close> has room for. The error it returns is
  \<^verbatim>\<open>nil\<close> or \<^verbatim>\<open>io.EOF\<close>, and the caller discards the one and turns the other into
  \<^verbatim>\<open>nil\<close>.\<close>

definition lz4s_sgl_Read :: "'z Stream \<Rightarrow> nat \<Rightarrow> byte list \<times> 'z Stream" where
  "lz4s_sgl_Read s blen =
     (take blen (sgl s),
      s\<lparr>sgl := drop blen (sgl s), events := events s @ [SglRead (length (take blen (sgl s)))]\<rparr>)"

definition runtime_Gosched :: "'z Stream \<Rightarrow> 'z Stream" where
  "runtime_Gosched s = s\<lparr>events := events s @ [Gosched]\<rparr>"

text \<open>\<^verbatim>\<open>lz4Stream.Read\<close> from the label \<^verbatim>\<open>ex\<close> on, with the \<^verbatim>\<open>n\<close> bytes \<open>out\<close>.\<close>

definition lz4Read_ex ::
  "bool \<Rightarrow> byte list \<Rightarrow> error option \<Rightarrow> 'z Stream \<Rightarrow> read_res \<times> 'z Stream" where
  "lz4Read_ex islast out err s =
     (let s1 = s\<lparr>stats_CompressedSize := stats_CompressedSize s + word_of_nat (length out)\<rparr>;
          s2 = (if length (sgl s1) = 0 then s1\<lparr>sgl := []\<rparr> else s1)
      in (Ret out (if islast \<and> err = None then Some EOF else err), s2))"

text \<open>
  \<^verbatim>\<open>lz4Stream.Read\<close> from the label \<^verbatim>\<open>re\<close> on, with the current value of \<^verbatim>\<open>retry\<close>.
  When the stream's own \<^verbatim>\<open>Read\<close> waits or panics, so does this call.
\<close>

function lz4Read_re ::
  "extern \<Rightarrow> 'z lz4_Writer \<Rightarrow> bool \<Rightarrow> nat \<Rightarrow> 'z Stream \<Rightarrow> nat \<Rightarrow> read_res \<times> 'z Stream" where
  "lz4Read_re c lz islast retry s blen =
     (case Read c s blen of
        (Waits, s1) \<Rightarrow> (Waits, s1)
      | (Panics, s1) \<Rightarrow> (Panics, s1)
      | (Ret bs err, s1) \<Rightarrow>
          (case lz4s_zw_Write lz s1 bs of
             None \<Rightarrow> (Panics, s1)
           | Some s2 \<Rightarrow>
               (case (if islast then lz4s_zw_Flush lz s2
                      else if ins (sendoff s2) = inEOB c \<or> err \<noteq> None then lz4s_zw_Flush lz s2
                      else Some s2) of
                  None \<Rightarrow> (Panics, s2)
                | Some s3 \<Rightarrow>
                    (if length (fst (lz4s_sgl_Read s3 blen)) = 0 then
                       (if 0 < (if islast then 0
                                else if ins (sendoff s2) = inEOB c \<or> err \<noteq> None then 0
                                else retry)
                        then lz4Read_re c lz islast (retry - 1)
                               (runtime_Gosched (snd (lz4s_sgl_Read s3 blen))) blen
                        else
                          (case lz4s_zw_Flush lz (snd (lz4s_sgl_Read s3 blen)) of
                             None \<Rightarrow> (Panics, snd (lz4s_sgl_Read s3 blen))
                           | Some s5 \<Rightarrow>
                               lz4Read_ex islast (fst (lz4s_sgl_Read s5 blen)) err
                                 (snd (lz4s_sgl_Read s5 blen))))
                     else lz4Read_ex islast (fst (lz4s_sgl_Read s3 blen)) err
                            (snd (lz4s_sgl_Read s3 blen))))))"
  by pat_completeness auto
termination
  by (relation "measure (\<lambda>(c, lz, islast, retry, s, blen). retry)") (auto split: if_splits)


subsection \<open>Observing a run\<close>

text \<open>The events a run adds: those of the state after it, past those of the state before.\<close>

definition new_events :: "'z Stream \<Rightarrow> 'z Stream \<Rightarrow> event list" where
  "new_events s s' = drop (length (events s)) (events s')"

text \<open>The objects given to \<^verbatim>\<open>FreeSend\<close>, in order. \<^verbatim>\<open>doCmpl\<close> is its only caller and calls
  it once, as its last statement: these are the objects \<^verbatim>\<open>doCmpl\<close> ran for.\<close>

fun freed :: "event list \<Rightarrow> Obj list" where
  "freed [] = []"
| "freed (FreeSend ob # es) = ob # freed es"
| "freed (e # es) = freed es"

text \<open>The readers closed, in order.\<close>

fun closed :: "event list \<Rightarrow> nat list" where
  "closed [] = []"
| "closed (Close r # es) = r # closed es"
| "closed (e # es) = closed es"

text \<open>The invocations of a sent-callback.\<close>

fun is_callback :: "event \<Rightarrow> bool" where
  "is_callback (ObjCallback f h r p e) = True"
| "is_callback (StreamCallback g h r p e) = True"
| "is_callback e = False"

text \<open>The condition \<^verbatim>\<open>rc == 0\<close> of \<^verbatim>\<open>doCmpl\<close>, on the state before the call.\<close>

definition fires :: "'z Stream \<Rightarrow> Obj \<Rightarrow> bool" where
  "fires s ob \<longleftrightarrow> (case prc ob of None \<Rightarrow> True | Some p \<Rightarrow> prcs s p - 1 = 0)"

text \<open>A completion whose object is not the last marker.\<close>

definition notLast :: "extern \<Rightarrow> cmpl \<Rightarrow> bool" where
  "notLast c x \<longleftrightarrow> \<not> IsLast c (cmpl_obj x)"

text \<open>\<^verbatim>\<open>doCmpl\<close> for each of a list of completions, in the order of the list.\<close>

definition doCmpl_all :: "'z Stream \<Rightarrow> cmpl list \<Rightarrow> 'z Stream" where
  "doCmpl_all s xs = foldl (\<lambda>s x. doCmpl s (cmpl_obj x) (cmpl_err x)) s xs"

text \<open>An object of \<^verbatim>\<open>workCh\<close> with the error its drain passes to \<^verbatim>\<open>doCmpl\<close>.\<close>

definition as_cmpl :: "error option \<Rightarrow> Obj \<Rightarrow> cmpl" where
  "as_cmpl err ob = \<lparr>cmpl_obj = ob, cmpl_err = err\<rparr>"

text \<open>An event of \<^verbatim>\<open>doCmpl\<close> for a last marker: a callback with its header, or its
  \<^verbatim>\<open>FreeSend\<close>.\<close>

fun ev_IsLast :: "extern \<Rightarrow> event \<Rightarrow> bool" where
  "ev_IsLast c (ObjCallback f h r p e) = hdr_IsLast c h"
| "ev_IsLast c (StreamCallback g h r p e) = hdr_IsLast c h"
| "ev_IsLast c (FreeSend ob) = IsLast c ob"
| "ev_IsLast c e = False"

text \<open>The invocation of a sent-callback that \<^verbatim>\<open>doCmpl\<close> makes for a completion when it
  fires: of the object's own callback, else of the stream's, else none.\<close>

definition sent_callback :: "'z Stream \<Rightarrow> cmpl \<Rightarrow> event list" where
  "sent_callback s x =
     (case Callback (cmpl_obj x) of
        Some f \<Rightarrow>
          [ObjCallback f (Hdr (cmpl_obj x)) (Reader (cmpl_obj x)) (CmplPtr (cmpl_obj x)) (cmpl_err x)]
      | None \<Rightarrow>
          (case callback s of
             Some g \<Rightarrow>
               [StreamCallback g (Hdr (cmpl_obj x)) (Reader (cmpl_obj x)) (CmplPtr (cmpl_obj x))
                  (cmpl_err x)]
           | None \<Rightarrow> []))"

text \<open>A run of the sender in which, for each element of a list in turn, the \<^verbatim>\<open>Read\<close> path
  has brought \<^verbatim>\<open>sendoff\<close> to the given value and calls \<^verbatim>\<open>eoObj\<close> with the given error.\<close>

fun eoObj_run :: "extern \<Rightarrow> 'z Stream \<Rightarrow> (sendoff \<times> error option) list \<Rightarrow> 'z Stream option" where
  "eoObj_run c s [] = Some s"
| "eoObj_run c s (x # xs) =
     (case eoObj c (s\<lparr>sendoff := fst x\<rparr>) (snd x) of
        None \<Rightarrow> None
      | Some s1 \<Rightarrow> eoObj_run c s1 xs)"

text \<open>An object ends well when \<^verbatim>\<open>eoObj\<close> is called without an error and the offset passes
  the validation against the size, which an unsized object always does.\<close>

definition sent_ok :: "extern \<Rightarrow> sendoff \<times> error option \<Rightarrow> bool" where
  "sent_ok c x \<longleftrightarrow>
     snd x = None \<and>
     (if IsUnsized c (obj (fst x)) then True else off (fst x) = Size (ObjAttrs (Hdr (obj (fst x)))))"

text \<open>\<^verbatim>\<open>Read\<close> is between objects when it goes to the label \<^verbatim>\<open>repeat\<close>: \<^verbatim>\<open>inSend\<close> is
  false, or no case of the switch on \<^verbatim>\<open>sendoff.ins\<close> applies.\<close>

definition between_objects :: "extern \<Rightarrow> 'z Stream \<Rightarrow> bool" where
  "between_objects c s \<longleftrightarrow>
     \<not> inSend c s \<or>
     (ins (sendoff s) \<noteq> inData c \<and> ins (sendoff s) \<noteq> inPDU c \<and> ins (sendoff s) \<noteq> inHdr c)"

subsection \<open>A sample stream\<close>

text \<open>Sample values for the parameters, an idle stream with empty queues, and an object
  with a name and a size, for the examples below.\<close>

definition ex_extern :: extern where
  "ex_extern =
     \<lparr>lastMarker = 0x7FFFFFFFFFFFFFFF, tickMarker = 0x7FFFFFFF5A5A5A5A, SizeUnknown = - 1,
      inHdr = 1, inPDU = 2, inData = 3, inEOB = 4,
      insObjHeader = (\<lambda>h p. map (\<lambda>ch. word_of_nat (of_char ch)) (ObjName h))\<rparr>"

definition ex_stream :: "'z Stream" where
  "ex_stream =
     \<lparr>workCh = [], workCh_closed = False, cmplCh = [], cmplCh_closed = False,
      callback = None, sendoff = \<lparr>obj = Obj0, off = 0, ins = 0\<rparr>,
      header = [], maxheader = 64, lz4s_on = False, zw = None, sgl = [], sgl_freed = False,
      stats_Num = 0, stats_Size = 0, stats_Offset = 0, stats_CompressedSize = 0,
      Numcur = 0, Sizecur = 0, terminated = False, term_err = None,
      stopCh_closed = False, lastCh_closed = False, sessST = active, time_inSend = False,
      wg = 1, registered = True, prcs = (\<lambda>p. 0), readers = (\<lambda>r. []), picks = [],
      events = []\<rparr>"

definition ex_obj :: "string \<Rightarrow> int64 \<Rightarrow> Obj" where
  "ex_obj name sz = Obj0\<lparr>Hdr := ObjHdr0\<lparr>ObjName := name, ObjAttrs := ObjectAttrs0\<lparr>Size := sz\<rparr>\<rparr>\<rparr>"

definition ex_a :: Obj where
  "ex_a = (ex_obj ''a'' 5)\<lparr>Reader := Some 1, Callback := Some 3\<rparr>"

definition ex_b :: Obj where
  "ex_b = (ex_obj ''b'' 7)\<lparr>Reader := Some 2\<rparr>"

definition ex_scq :: "unit Stream" where
  "ex_scq = ex_stream\<lparr>callback := Some 9,
     cmplCh := [\<lparr>cmpl_obj = ex_a, cmpl_err = None\<rparr>,
                \<lparr>cmpl_obj = marker (lastMarker ex_extern), cmpl_err = Some (ErrExternal 1)\<rparr>,
                \<lparr>cmpl_obj = ex_b, cmpl_err = None\<rparr>]\<rparr>"

text \<open>The identity as a writer: what is written is emitted at once.\<close>

definition ex_lz :: "unit lz4_Writer" where
  "ex_lz = \<lparr>zw_Write = (\<lambda>z p. (z, p)), zw_Flush = (\<lambda>z. (z, [])), zw_Reset = (\<lambda>z. z)\<rparr>"

text \<open>The stream in the middle of the data of \<open>ex_a\<close>, whose reader ends after two of its
  five bytes.\<close>

definition ex_short :: "unit Stream" where
  "ex_short = ex_stream\<lparr>sendoff := \<lparr>obj = ex_a, off = 0, ins = 3\<rparr>,
     readers := (\<lambda>r. [])(1 := [([1, 2], Some EOF)])\<rparr>"

text \<open>The three sizes of the first end-to-end scenario of the specification, each object
  sent in full.\<close>

definition ex_three :: "(sendoff \<times> error option) list" where
  "ex_three =
     [(\<lparr>obj = ex_obj ''x'' 0, off = 0, ins = 3\<rparr>, None),
      (\<lparr>obj = ex_obj ''y'' 1024, off = 1024, ins = 3\<rparr>, None),
      (\<lparr>obj = ex_obj ''z'' 10485760, off = 10485760, ins = 3\<rparr>, None)]"

text \<open>An idle stream whose SQ holds a tick marker followed by the object \<open>ex_b\<close>.\<close>

definition ex_ticked :: "unit Stream" where
  "ex_ticked = ex_scq\<lparr>workCh := [marker (tickMarker ex_extern), ex_b]\<rparr>"

text \<open>A writer that keeps what is written until it is flushed; a compressing stream with
  the object \<open>ex_b\<close> in SQ, whose reader gives its seven bytes at once; and a compressing
  stream that has sent the header of the last marker.\<close>

definition ex_lzbuf :: "(byte list) lz4_Writer" where
  "ex_lzbuf = \<lparr>zw_Write = (\<lambda>z p. (z @ p, [])), zw_Flush = (\<lambda>z. ([], z)), zw_Reset = (\<lambda>z. [])\<rparr>"

definition ex_lzs :: "(byte list) Stream" where
  "ex_lzs = ex_stream\<lparr>lz4s_on := True, zw := Some [], workCh := [ex_b],
     readers := (\<lambda>r. [])(2 := [([1, 2, 3, 4, 5, 6, 7], None)])\<rparr>"


subsection \<open>Counters of objects sent on several streams\<close>

text \<open>\<^verbatim>\<open>obj.prc.Dec()\<close> on the store of counters: the counter of the object, when it has
  one, goes down by one.\<close>

definition prc_dec :: "(nat \<Rightarrow> int64) \<Rightarrow> Obj \<Rightarrow> (nat \<Rightarrow> int64)" where
  "prc_dec m ob = (case prc ob of None \<Rightarrow> m | Some p \<Rightarrow> m(p := m p - 1))"

text \<open>The callbacks to expect of a list of completions handled in order, from a store of
  counters: a completion has its callback invoked when its object has no counter, or when
  the counter, taken down by one, is zero; the next completion meets the store with that
  decrement made.\<close>

fun sent_callbacks :: "'z Stream \<Rightarrow> (nat \<Rightarrow> int64) \<Rightarrow> cmpl list \<Rightarrow> event list" where
  "sent_callbacks s m [] = []"
| "sent_callbacks s m (x # xs) =
     (if (case prc (cmpl_obj x) of None \<Rightarrow> True | Some p \<Rightarrow> m p - 1 = 0)
      then sent_callback s x else []) @
     sent_callbacks s (prc_dec m (cmpl_obj x)) xs"

text \<open>A stream whose SCQ holds the three completions of one object sent on three
  streams: its counter stands at 3.\<close>

definition ex_prc :: "unit Stream" where
  "ex_prc = ex_stream\<lparr>callback := Some 9, prcs := (\<lambda>p. 0)(0 := 3),
     cmplCh := [\<lparr>cmpl_obj = ex_b\<lparr>prc := Some 0\<rparr>, cmpl_err = None\<rparr>,
                \<lparr>cmpl_obj = ex_b\<lparr>prc := Some 0\<rparr>, cmpl_err = None\<rparr>,
                \<lparr>cmpl_obj = ex_b\<lparr>prc := Some 0\<rparr>, cmpl_err = Some (ErrExternal 1)\<rparr>]\<rparr>"

subsection \<open>Tick markers in flight\<close>

text \<open>A tick marker is being sent: it is the object of \<^verbatim>\<open>sendoff\<close> in one of the phases
  in which \<^verbatim>\<open>Read\<close> sends bytes of that object.\<close>

definition sending_tick :: "extern \<Rightarrow> 'z Stream \<Rightarrow> bool" where
  "sending_tick c s \<longleftrightarrow>
     (ins (sendoff s) = inHdr c \<or> ins (sendoff s) = inPDU c \<or> ins (sendoff s) = inData c) \<and>
     IsIdleTick c (obj (sendoff s))"

text \<open>A header-only object (of size 0) in its data phase, and a tick marker in SQ.\<close>

definition ex_hdronly :: "unit Stream" where
  "ex_hdronly = ex_stream\<lparr>sendoff := \<lparr>obj = ex_obj ''x'' 0, off = 0, ins = 3\<rparr>,
     workCh := [marker (tickMarker ex_extern)]\<rparr>"

section \<open>Properties\<close>

text \<open>The equations of the loops are unfolded by hand, one step at a time.\<close>

declare cmplLoop.simps [simp del] abortPending_workCh.simps [simp del]
  abortPending_cmplCh.simps [simp del] drain.simps [simp del]
  Read_repeat.simps [simp del] lz4Read_re.simps [simp del]

subsection \<open>Completions: \<^verbatim>\<open>doCmpl\<close> and the loops that call it\<close>

lemma freed_append: "freed (xs @ ys) = freed xs @ freed ys"
  by (induction xs rule: freed.induct) simp_all

lemma closed_append: "closed (xs @ ys) = closed xs @ closed ys"
  by (induction xs rule: closed.induct) simp_all

lemma doCmpl_events: "events (doCmpl s ob err) = events s @ new_events s (doCmpl s ob err)"
  by (simp add: doCmpl_def new_events_def Let_def split: option.splits)

lemma doCmpl_freed: "freed (new_events s (doCmpl s ob err)) = [ob]"
  by (simp add: doCmpl_def new_events_def Let_def split: option.splits)

lemma doCmpl_closed:
  "closed (new_events s (doCmpl s ob err)) = (case Reader ob of Some r \<Rightarrow> [r] | None \<Rightarrow> [])"
  by (simp add: doCmpl_def new_events_def Let_def split: option.splits)

lemma doCmpl_callbacks:
  "filter is_callback (new_events s (doCmpl s ob err)) =
     (if fires s ob then
        (case Callback ob of
           Some f \<Rightarrow> [ObjCallback f (Hdr ob) (Reader ob) (CmplPtr ob) err]
         | None \<Rightarrow>
             (case callback s of
                Some g \<Rightarrow> [StreamCallback g (Hdr ob) (Reader ob) (CmplPtr ob) err]
              | None \<Rightarrow> []))
      else [])"
  by (simp add: doCmpl_def new_events_def fires_def Let_def split: option.splits)

lemma new_events_refl [simp]: "new_events s s = []"
  by (simp add: new_events_def)

lemma doCmpl_all_Nil [simp]: "doCmpl_all s [] = s"
  by (simp add: doCmpl_all_def)

lemma doCmpl_all_Cons [simp]:
  "doCmpl_all s (x # xs) = doCmpl_all (doCmpl s (cmpl_obj x) (cmpl_err x)) xs"
  by (simp add: doCmpl_all_def)

lemma doCmpl_upd_cmplCh: "doCmpl (s\<lparr>cmplCh := xs\<rparr>) ob e = (doCmpl s ob e)\<lparr>cmplCh := xs\<rparr>"
  by (simp add: doCmpl_def Let_def split: option.splits)

lemma doCmpl_upd_workCh: "doCmpl (s\<lparr>workCh := xs\<rparr>) ob e = (doCmpl s ob e)\<lparr>workCh := xs\<rparr>"
  by (simp add: doCmpl_def Let_def split: option.splits)

lemma doCmpl_all_upd_cmplCh: "doCmpl_all (s\<lparr>cmplCh := xs\<rparr>) ys = (doCmpl_all s ys)\<lparr>cmplCh := xs\<rparr>"
  by (induction ys arbitrary: s) (simp_all add: doCmpl_upd_cmplCh)

lemma doCmpl_all_upd_workCh: "doCmpl_all (s\<lparr>workCh := xs\<rparr>) ys = (doCmpl_all s ys)\<lparr>workCh := xs\<rparr>"
  by (induction ys arbitrary: s) (simp_all add: doCmpl_upd_workCh)

lemma doCmpl_frame:
  "cmplCh (doCmpl s ob e) = cmplCh s" "workCh (doCmpl s ob e) = workCh s"
  "cmplCh_closed (doCmpl s ob e) = cmplCh_closed s" "workCh_closed (doCmpl s ob e) = workCh_closed s"
  "wg (doCmpl s ob e) = wg s" "term_err (doCmpl s ob e) = term_err s"
  by (simp_all add: doCmpl_def Let_def split: option.splits)

lemma doCmpl_all_frame:
  "cmplCh (doCmpl_all s ys) = cmplCh s" "workCh (doCmpl_all s ys) = workCh s"
  "cmplCh_closed (doCmpl_all s ys) = cmplCh_closed s" "workCh_closed (doCmpl_all s ys) = workCh_closed s"
  "wg (doCmpl_all s ys) = wg s" "term_err (doCmpl_all s ys) = term_err s"
  by (induction ys arbitrary: s) (simp_all add: doCmpl_frame)

lemma cmplLoop_eq:
  "cmplLoop c s =
     (if dropWhile (notLast c) (cmplCh s) = [] then
        (if cmplCh_closed s
         then (Returned, (doCmpl_all s (cmplCh s))\<lparr>cmplCh := [], wg := wg s - 1\<rparr>)
         else (Blocked, (doCmpl_all s (cmplCh s))\<lparr>cmplCh := []\<rparr>))
      else (Returned, (doCmpl_all s (takeWhile (notLast c) (cmplCh s)))
                        \<lparr>cmplCh := tl (dropWhile (notLast c) (cmplCh s)), wg := wg s - 1\<rparr>))"
proof (induction c s rule: cmplLoop.induct)
  case (1 c s)
  show ?case
  proof (cases "cmplCh s")
    case Nil
    then have "s\<lparr>cmplCh := []\<rparr> = s" by (cases s) simp
    with Nil show ?thesis
      by (simp add: cmplLoop.simps [of c s])
  next
    case (Cons x xs)
    show ?thesis
    proof (cases "IsLast c (cmpl_obj x)")
      case True
      with Cons show ?thesis
        by (simp add: cmplLoop.simps [of c s] notLast_def)
    next
      case False
      let ?s1 = "doCmpl (s\<lparr>cmplCh := xs\<rparr>) (cmpl_obj x) (cmpl_err x)"
      have eq: "cmplLoop c s = cmplLoop c ?s1"
        using Cons False by (simp add: cmplLoop.simps [of c s])
      have nl: "notLast c x" using False by (simp add: notLast_def)
      show ?thesis
        unfolding eq "1.IH" [OF Cons False]
        using Cons nl
        by (simp add: doCmpl_frame doCmpl_upd_cmplCh doCmpl_all_upd_cmplCh)
    qed
  qed
qed

lemma as_cmpl_sel [simp]: "cmpl_obj (as_cmpl err ob) = ob" "cmpl_err (as_cmpl err ob) = err"
  by (simp_all add: as_cmpl_def)

lemma abortPending_workCh_eq:
  "abortPending_workCh s err =
     (if workCh_closed s then Returned else Blocked,
      (doCmpl_all s (map (as_cmpl err) (workCh s)))\<lparr>workCh := []\<rparr>)"
proof (induction s err rule: abortPending_workCh.induct)
  case (1 s err)
  show ?case
  proof (cases "workCh s")
    case Nil
    then have "s\<lparr>workCh := []\<rparr> = s" by (cases s) simp
    with Nil show ?thesis
      by (simp add: abortPending_workCh.simps [of s err])
  next
    case (Cons ob obs)
    have eq: "abortPending_workCh s err = abortPending_workCh (doCmpl (s\<lparr>workCh := obs\<rparr>) ob err) err"
      using Cons by (simp add: abortPending_workCh.simps [of s err])
    show ?thesis
      unfolding eq "1.IH" [OF Cons]
      using Cons
      by (simp add: doCmpl_frame doCmpl_upd_workCh doCmpl_all_upd_workCh)
  qed
qed

lemma abortPending_cmplCh_eq:
  "abortPending_cmplCh c s =
     (if cmplCh_closed s then Returned else Blocked,
      (doCmpl_all s (filter (notLast c) (cmplCh s)))\<lparr>cmplCh := []\<rparr>)"
proof (induction c s rule: abortPending_cmplCh.induct)
  case (1 c s)
  show ?case
  proof (cases "cmplCh s")
    case Nil
    then have "s\<lparr>cmplCh := []\<rparr> = s" by (cases s) simp
    with Nil show ?thesis
      by (simp add: abortPending_cmplCh.simps [of c s])
  next
    case (Cons x xs)
    show ?thesis
    proof (cases "IsLast c (cmpl_obj x)")
      case True
      have eq: "abortPending_cmplCh c s = abortPending_cmplCh c (s\<lparr>cmplCh := xs\<rparr>)"
        using Cons True by (simp add: abortPending_cmplCh.simps [of c s])
      have ih: "abortPending_cmplCh c (s\<lparr>cmplCh := xs\<rparr>) =
          (if cmplCh_closed (s\<lparr>cmplCh := xs\<rparr>) then Returned else Blocked,
           (doCmpl_all (s\<lparr>cmplCh := xs\<rparr>) (filter (notLast c) (cmplCh (s\<lparr>cmplCh := xs\<rparr>))))
             \<lparr>cmplCh := []\<rparr>)"
        using "1.IH"(2) [OF Cons] True by simp
      have nl: "\<not> notLast c x" using True by (simp add: notLast_def)
      show ?thesis
        unfolding eq ih
        using Cons nl
        by (simp add: doCmpl_all_upd_cmplCh)
    next
      case False
      have eq: "abortPending_cmplCh c s =
          abortPending_cmplCh c (doCmpl (s\<lparr>cmplCh := xs\<rparr>) (cmpl_obj x) (cmpl_err x))"
        using Cons False by (simp add: abortPending_cmplCh.simps [of c s])
      have nl: "notLast c x" using False by (simp add: notLast_def)
      show ?thesis
        unfolding eq "1.IH"(1) [OF Cons False]
        using Cons nl
        by (simp add: doCmpl_frame doCmpl_upd_cmplCh doCmpl_all_upd_cmplCh)
    qed
  qed
qed

lemma drain_eq:
  "drain s =
     (if workCh_closed s then Panicked else Returned,
      (doCmpl_all s (map (as_cmpl (term_err s)) (workCh s)))\<lparr>workCh := []\<rparr>)"
proof (induction s rule: drain.induct)
  case (1 s)
  show ?case
  proof (cases "workCh s")
    case Nil
    then have "s\<lparr>workCh := []\<rparr> = s" by (cases s) simp
    with Nil show ?thesis
      by (simp add: drain.simps [of s])
  next
    case (Cons ob obs)
    have eq: "drain s = drain (doCmpl (s\<lparr>workCh := obs\<rparr>) ob (term_err s))"
      using Cons by (simp add: drain.simps [of s])
    show ?thesis
      unfolding eq "1.IH" [OF Cons]
      using Cons
      by (simp add: doCmpl_frame doCmpl_upd_workCh doCmpl_all_upd_workCh)
  qed
qed

lemma doCmpl_all_prefix: "\<exists>n. events (doCmpl_all s xs) = events s @ n"
proof (induction xs arbitrary: s)
  case Nil
  show ?case by simp
next
  case (Cons x xs)
  obtain n1 where "events (doCmpl_all (doCmpl s (cmpl_obj x) (cmpl_err x)) xs) =
      events (doCmpl s (cmpl_obj x) (cmpl_err x)) @ n1"
    using Cons.IH by blast
  moreover obtain d where "events (doCmpl s (cmpl_obj x) (cmpl_err x)) = events s @ d"
    using doCmpl_events by blast
  ultimately show ?case by simp
qed

lemma doCmpl_all_events:
  "events (doCmpl_all s xs) = events s @ new_events s (doCmpl_all s xs)"
proof -
  obtain n where "events (doCmpl_all s xs) = events s @ n"
    using doCmpl_all_prefix by blast
  then show ?thesis by (simp add: new_events_def)
qed

lemma doCmpl_all_new_Cons:
  "new_events s (doCmpl_all (doCmpl s ob e) xs) =
     new_events s (doCmpl s ob e) @ new_events (doCmpl s ob e) (doCmpl_all (doCmpl s ob e) xs)"
proof -
  obtain d where d: "events (doCmpl s ob e) = events s @ d"
    using doCmpl_events by blast
  obtain n where n: "events (doCmpl_all (doCmpl s ob e) xs) = events (doCmpl s ob e) @ n"
    using doCmpl_all_prefix by blast
  show ?thesis
    unfolding new_events_def n d by simp
qed

lemma doCmpl_all_freed: "freed (new_events s (doCmpl_all s xs)) = map cmpl_obj xs"
  by (induction xs arbitrary: s) (simp_all add: doCmpl_all_new_Cons freed_append doCmpl_freed)

lemma doCmpl_all_closed:
  "closed (new_events s (doCmpl_all s xs)) = List.map_filter Reader (map cmpl_obj xs)"
  by (induction xs arbitrary: s)
    (simp_all add: doCmpl_all_new_Cons closed_append doCmpl_closed List.map_filter_simps
      split: option.splits)

lemma doCmpl_not_last:
  "\<not> IsLast c ob \<Longrightarrow> \<forall>e \<in> set (new_events s (doCmpl s ob err)). \<not> ev_IsLast c e"
  by (simp add: doCmpl_def new_events_def Let_def IsLast_def split: option.splits)

lemma doCmpl_all_not_last:
  "\<forall>x \<in> set xs. notLast c x \<Longrightarrow> \<forall>e \<in> set (new_events s (doCmpl_all s xs)). \<not> ev_IsLast c e"
proof (induction xs arbitrary: s)
  case Nil
  show ?case by simp
next
  case (Cons x xs)
  let ?s1 = "doCmpl s (cmpl_obj x) (cmpl_err x)"
  have a: "\<forall>e \<in> set (new_events s ?s1). \<not> ev_IsLast c e"
    using Cons.prems by (intro doCmpl_not_last) (simp add: notLast_def)
  have b: "\<forall>e \<in> set (new_events ?s1 (doCmpl_all ?s1 xs)). \<not> ev_IsLast c e"
    using Cons.prems by (intro Cons.IH) simp
  show ?case
    using a b by (simp add: doCmpl_all_new_Cons ball_Un)
qed

lemma doCmpl_all_append: "doCmpl_all s (xs @ ys) = doCmpl_all (doCmpl_all s xs) ys"
  by (simp add: doCmpl_all_def)

lemma new_events_upd [simp]:
  "new_events s (s'\<lparr>cmplCh := xs\<rparr>) = new_events s s'"
  "new_events s (s'\<lparr>workCh := ys\<rparr>) = new_events s s'"
  "new_events s (s'\<lparr>wg := w\<rparr>) = new_events s s'"
  by (simp_all add: new_events_def)

lemma cmplLoop_new_events:
  "new_events s (snd (cmplLoop c s)) =
     new_events s (doCmpl_all s (takeWhile (notLast c) (cmplCh s)))"
proof (cases "dropWhile (notLast c) (cmplCh s) = []")
  case True
  then have tw: "takeWhile (notLast c) (cmplCh s) = cmplCh s"
    by (simp add: dropWhile_eq_Nil_conv)
  have ball: "\<forall>x \<in> set (cmplCh s). notLast c x"
    using True by (simp add: dropWhile_eq_Nil_conv)
  show ?thesis
    by (simp add: cmplLoop_eq ball tw)
next
  case False
  show ?thesis
    by (simp only: cmplLoop_eq False if_False snd_conv new_events_upd)
qed

lemma abortPending_cmplCh_new_events:
  "new_events s (snd (abortPending_cmplCh c s)) =
     new_events s (doCmpl_all s (filter (notLast c) (cmplCh s)))"
  by (simp add: abortPending_cmplCh_eq)

lemma drain_new_events:
  "new_events s (snd (drain s)) = new_events s (doCmpl_all s (map (as_cmpl (term_err s)) (workCh s)))"
  by (simp add: drain_eq)

lemma abortPending_new_events:
  "new_events s (snd (abortPending c s err completions)) =
     new_events s (doCmpl_all s (map (as_cmpl err) (workCh s) @
       (if workCh_closed s \<and> completions then filter (notLast c) (cmplCh s) else [])))"
  by (simp add: abortPending_def abortPending_workCh_eq abortPending_cmplCh_eq
      doCmpl_all_append doCmpl_all_upd_workCh doCmpl_all_frame)

lemma map_as_cmpl [simp]: "map (cmpl_obj \<circ> as_cmpl err) obs = obs"
  by (induction obs) simp_all

lemma doCmpl_callback_frame: "callback (doCmpl s ob e) = callback s"
  by (simp add: doCmpl_def Let_def split: option.splits)

lemma sent_callback_doCmpl [simp]: "sent_callback (doCmpl s ob e) x = sent_callback s x"
  by (simp add: sent_callback_def doCmpl_callback_frame split: option.splits)

lemma doCmpl_all_callbacks:
  "\<forall>x \<in> set xs. prc (cmpl_obj x) = None \<Longrightarrow>
     filter is_callback (new_events s (doCmpl_all s xs)) = concat (map (sent_callback s) xs)"
proof (induction xs arbitrary: s)
  case Nil
  show ?case by simp
next
  case (Cons x xs)
  have f: "fires s (cmpl_obj x)"
    using Cons.prems by (simp add: fires_def)
  have "filter is_callback (new_events s (doCmpl s (cmpl_obj x) (cmpl_err x))) = sent_callback s x"
    using f by (simp add: doCmpl_callbacks sent_callback_def)
  moreover have "filter is_callback
      (new_events (doCmpl s (cmpl_obj x) (cmpl_err x))
         (doCmpl_all (doCmpl s (cmpl_obj x) (cmpl_err x)) xs)) =
      concat (map (sent_callback s) xs)"
    using Cons.IH [of "doCmpl s (cmpl_obj x) (cmpl_err x)"] Cons.prems by simp
  ultimately show ?case
    by (simp add: doCmpl_all_new_Cons)
qed

lemma doCmpl_prcs: "prcs (doCmpl s ob err) = prc_dec (prcs s) ob"
  by (simp add: doCmpl_def prc_dec_def Let_def split: option.splits)

lemma doCmpl_all_prcs: "prcs (doCmpl_all s xs) = foldl prc_dec (prcs s) (map cmpl_obj xs)"
  by (induction xs arbitrary: s) (simp_all add: doCmpl_prcs)

lemma sent_callbacks_doCmpl [simp]:
  "sent_callbacks (doCmpl s ob e) m xs = sent_callbacks s m xs"
  by (induction xs arbitrary: m) simp_all

lemma doCmpl_all_sent_callbacks:
  "filter is_callback (new_events s (doCmpl_all s xs)) = sent_callbacks s (prcs s) xs"
proof (induction xs arbitrary: s)
  case Nil
  show ?case by simp
next
  case (Cons x xs)
  have "filter is_callback (new_events s (doCmpl s (cmpl_obj x) (cmpl_err x))) =
      (if (case prc (cmpl_obj x) of None \<Rightarrow> True | Some p \<Rightarrow> prcs s p - 1 = 0)
       then sent_callback s x else [])"
    by (simp add: doCmpl_callbacks sent_callback_def fires_def)
  then show ?case
    using Cons.IH [of "doCmpl s (cmpl_obj x) (cmpl_err x)"]
    by (simp add: doCmpl_all_new_Cons doCmpl_prcs)
qed

lemma int64_dec_zero:
  "0 < n \<Longrightarrow> n < 2 ^ 64 \<Longrightarrow> (word_of_nat n - 1 = (0 :: int64)) = (n = 1)"
proof -
  assume n: "0 < n" "n < 2 ^ 64"
  have u: "unat (word_of_nat n :: int64) = n"
    using n by (simp add: unat_of_nat take_bit_nat_eq_self)
  have "n = 1" if "(word_of_nat n :: int64) = 1"
  proof -
    have "unat (word_of_nat n :: int64) = unat (1 :: int64)" using that by simp
    then show ?thesis using u by simp
  qed
  then show ?thesis by auto
qed

lemma shared_prc_callbacks:
  "\<forall>x \<in> set xs. prc (cmpl_obj x) = Some p \<Longrightarrow> m p = word_of_nat n \<Longrightarrow> n < 2 ^ 64 \<Longrightarrow>
   length xs \<le> n \<Longrightarrow>
     sent_callbacks s m xs = (if xs \<noteq> [] \<and> length xs = n then sent_callback s (last xs) else []) \<and>
     foldl prc_dec m (map cmpl_obj xs) p = word_of_nat (n - length xs)"
proof (induction xs arbitrary: m n)
  case Nil
  then show ?case by simp
next
  case (Cons x xs)
  have n: "0 < n" using Cons.prems(4) by simp
  have px: "prc (cmpl_obj x) = Some p" using Cons.prems(1) by simp
  have d: "prc_dec m (cmpl_obj x) p = word_of_nat (n - 1)"
    using px Cons.prems(2) n by (simp add: prc_dec_def of_nat_diff)
  have f: "(m p - 1 = 0) = (n = 1)"
    using int64_dec_zero [OF n Cons.prems(3)] Cons.prems(2) by simp
  have ih: "sent_callbacks s (prc_dec m (cmpl_obj x)) xs =
        (if xs \<noteq> [] \<and> length xs = n - 1 then sent_callback s (last xs) else []) \<and>
      foldl prc_dec (prc_dec m (cmpl_obj x)) (map cmpl_obj xs) p = word_of_nat (n - 1 - length xs)"
    using Cons.prems d by (intro Cons.IH [of "prc_dec m (cmpl_obj x)" "n - 1"]) auto
  show ?case
  proof (cases "n = 1")
    case True
    then have "xs = []" using Cons.prems(4) by simp
    with True px f ih show ?thesis by simp
  next
    case False
    with px f ih n show ?thesis by auto
  qed
qed

text \<open>
  Claim C1. For an object that the completion machinery processes, \<^verbatim>\<open>doCmpl\<close> runs
  exactly once. One run of \<^verbatim>\<open>doCmpl\<close> for an object frees that object once; it invokes a
  sent-callback exactly once, with the error it was given, when \<^verbatim>\<open>prc\<close> is nil or its
  decrement reaches zero and a callback is set (the object's own, else the stream's), and
  not at all otherwise; it closes the object's reader exactly once when the reader is
  not nil, whether or not a callback is set; and it leaves the object's counter, when it has
  one, decremented by one. \<^verbatim>\<open>cmplLoop\<close> does what \<^verbatim>\<open>doCmpl\<close> does for each
  completion before the first last marker, in order; \<^verbatim>\<open>abortPending\<close> for each object of SQ
  and (when asked, and once SQ is closed) for each completion of SCQ that is not a last
  marker; \<^verbatim>\<open>drain\<close> for each object of SQ. Over such a list \<^verbatim>\<open>doCmpl\<close> runs once for each
  element, the readers closed are the readers of the elements, each counter goes down by one
  for each element that has it, and the callbacks invoked are those of the elements that
  have no counter or bring their counter to zero, each meeting the decrements of the elements
  before it. Where no element has a \<^verbatim>\<open>prc\<close>, that is one callback for each element that has
  a callback to invoke. Where all the elements are completions of objects sharing one counter
  that stands at \<open>n\<close>, and there are no more than \<open>n\<close> of them, no callback is invoked before
  the \<open>n\<close>-th completion and exactly the callback of the \<open>n\<close>-th is invoked at it, with the
  error of that completion.
\<close>

theorem completion_exactly_once:
  "freed (new_events s (doCmpl s ob err)) = [ob] \<and>
   filter is_callback (new_events s (doCmpl s ob err)) =
     (if fires s ob then
        (case Callback ob of
           Some f \<Rightarrow> [ObjCallback f (Hdr ob) (Reader ob) (CmplPtr ob) err]
         | None \<Rightarrow>
             (case callback s of
                Some g \<Rightarrow> [StreamCallback g (Hdr ob) (Reader ob) (CmplPtr ob) err]
              | None \<Rightarrow> []))
      else []) \<and>
   closed (new_events s (doCmpl s ob err)) = (case Reader ob of Some r \<Rightarrow> [r] | None \<Rightarrow> []) \<and>
   prcs (doCmpl s ob err) = prc_dec (prcs s) ob \<and>
   new_events s (snd (cmplLoop c s)) =
     new_events s (doCmpl_all s (takeWhile (notLast c) (cmplCh s))) \<and>
   new_events s (snd (abortPending c s err completions)) =
     new_events s (doCmpl_all s (map (as_cmpl err) (workCh s) @
       (if workCh_closed s \<and> completions then filter (notLast c) (cmplCh s) else []))) \<and>
   new_events s (snd (drain s)) =
     new_events s (doCmpl_all s (map (as_cmpl (term_err s)) (workCh s))) \<and>
   freed (new_events s (doCmpl_all s xs)) = map cmpl_obj xs \<and>
   closed (new_events s (doCmpl_all s xs)) = List.map_filter Reader (map cmpl_obj xs) \<and>
   prcs (doCmpl_all s xs) = foldl prc_dec (prcs s) (map cmpl_obj xs) \<and>
   filter is_callback (new_events s (doCmpl_all s xs)) = sent_callbacks s (prcs s) xs \<and>
   ((\<forall>x \<in> set xs. prc (cmpl_obj x) = None) \<longrightarrow>
      filter is_callback (new_events s (doCmpl_all s xs)) = concat (map (sent_callback s) xs)) \<and>
   ((\<forall>x \<in> set xs. prc (cmpl_obj x) = Some p) \<and> prcs s p = word_of_nat n \<and> n < 2 ^ 64 \<and>
    length xs \<le> n \<longrightarrow>
      filter is_callback (new_events s (doCmpl_all s xs)) =
        (if xs \<noteq> [] \<and> length xs = n then sent_callback s (last xs) else []) \<and>
      prcs (doCmpl_all s xs) p = word_of_nat (n - length xs))"
proof -
  have a: "filter is_callback (new_events s (doCmpl_all s xs)) =
        (if xs \<noteq> [] \<and> length xs = n then sent_callback s (last xs) else []) \<and>
      prcs (doCmpl_all s xs) p = word_of_nat (n - length xs)"
    if "\<forall>x \<in> set xs. prc (cmpl_obj x) = Some p" "prcs s p = word_of_nat n" "n < 2 ^ 64"
      "length xs \<le> n"
    using shared_prc_callbacks [where m = "prcs s" and s = s and xs = xs and p = p and n = n] that
    by (simp add: doCmpl_all_sent_callbacks doCmpl_all_prcs)
  show ?thesis
    using doCmpl_all_callbacks [of xs s] a
    by (simp add: doCmpl_freed doCmpl_callbacks doCmpl_closed cmplLoop_new_events
        abortPending_new_events drain_new_events doCmpl_all_freed doCmpl_all_closed
        doCmpl_prcs doCmpl_all_prcs doCmpl_all_sent_callbacks)
qed

text \<open>
  Claim C9. When a completion fires and the object has its own \<^verbatim>\<open>Callback\<close>, that
  callback is the only one invoked, whatever the stream-level callback is; the stream-level
  callback is invoked only for a firing object whose own \<^verbatim>\<open>Callback\<close> is nil.
\<close>

theorem per_object_callback_only:
  "(fires s ob \<and> Callback ob = Some f \<longrightarrow>
      filter is_callback (new_events s (doCmpl s ob err)) =
        [ObjCallback f (Hdr ob) (Reader ob) (CmplPtr ob) err]) \<and>
   (StreamCallback g h r p e \<in> set (new_events s (doCmpl s ob err)) \<longrightarrow>
      Callback ob = None \<and> callback s = Some g \<and> fires s ob)"
  by (auto simp: doCmpl_def new_events_def fires_def Let_def split: option.splits if_splits)

text \<open>
  Claim C10. No drain of SCQ passes a last marker to \<^verbatim>\<open>doCmpl\<close>: among the events of
  \<^verbatim>\<open>cmplLoop\<close>, and of the SCQ loop of \<^verbatim>\<open>abortPending\<close>, there is no callback with a last
  marker's header and no \<^verbatim>\<open>FreeSend\<close> of a last marker; the same holds of the whole of
  \<^verbatim>\<open>abortPending\<close> when SQ holds no last marker. The object that \<^verbatim>\<open>terminate\<close> posts is
  a last marker.
\<close>

theorem lastMarker_never_completed:
  "(\<forall>e \<in> set (new_events s (snd (cmplLoop c s))). \<not> ev_IsLast c e) \<and>
   (\<forall>e \<in> set (new_events s (snd (abortPending_cmplCh c s))). \<not> ev_IsLast c e) \<and>
   ((\<forall>ob \<in> set (workCh s). \<not> IsLast c ob) \<longrightarrow>
      (\<forall>e \<in> set (new_events s (snd (abortPending c s err completions))). \<not> ev_IsLast c e)) \<and>
   IsLast c (marker (lastMarker c))"
proof -
  have a: "\<forall>e \<in> set (new_events s (snd (cmplLoop c s))). \<not> ev_IsLast c e"
    unfolding cmplLoop_new_events
    by (rule doCmpl_all_not_last) (auto dest: set_takeWhileD)
  have b: "\<forall>e \<in> set (new_events s (snd (abortPending_cmplCh c s))). \<not> ev_IsLast c e"
    unfolding abortPending_cmplCh_new_events
    by (rule doCmpl_all_not_last) simp
  have c: "\<forall>e \<in> set (new_events s (snd (abortPending c s err completions))). \<not> ev_IsLast c e"
    if "\<forall>ob \<in> set (workCh s). \<not> IsLast c ob"
    unfolding abortPending_new_events
    using that by (intro doCmpl_all_not_last) (auto simp: notLast_def)
  have d: "IsLast c (marker (lastMarker c))"
    by (simp add: IsLast_def hdr_IsLast_def marker_def)
  from a b c d show ?thesis by blast
qed

text \<open>
  Claim C5. \<^verbatim>\<open>cmplLoop\<close> handles the completions of SCQ in order and returns at the first
  one whose object is a last marker, without running \<^verbatim>\<open>doCmpl\<close> for it: what was posted
  after the marker is left in the channel, unprocessed. Without a last marker it handles
  everything and returns when the channel is closed, and waits when it is open.
\<close>

theorem cmplLoop_stops_at_lastMarker:
  "(cmplCh s = pre @ m # post \<and> (\<forall>x \<in> set pre. notLast c x) \<and> \<not> notLast c m \<longrightarrow>
      cmplLoop c s = (Returned, (doCmpl_all s pre)\<lparr>cmplCh := post, wg := wg s - 1\<rparr>)) \<and>
   ((\<forall>x \<in> set (cmplCh s). notLast c x) \<longrightarrow>
      cmplLoop c s =
        (if cmplCh_closed s
         then (Returned, (doCmpl_all s (cmplCh s))\<lparr>cmplCh := [], wg := wg s - 1\<rparr>)
         else (Blocked, (doCmpl_all s (cmplCh s))\<lparr>cmplCh := []\<rparr>))) \<and>
   freed (new_events s (doCmpl_all s xs)) = map cmpl_obj xs \<and>
   freed (new_events s (snd (cmplLoop c s))) = map cmpl_obj (takeWhile (notLast c) (cmplCh s))"
proof -
  have a: "cmplLoop c s = (Returned, (doCmpl_all s pre)\<lparr>cmplCh := post, wg := wg s - 1\<rparr>)"
    if "cmplCh s = pre @ m # post" "\<forall>x \<in> set pre. notLast c x" "\<not> notLast c m"
  proof -
    have "takeWhile (notLast c) (cmplCh s) = pre" "dropWhile (notLast c) (cmplCh s) = m # post"
      using that by (simp_all add: takeWhile_append2 dropWhile_append2)
    then show ?thesis by (simp add: cmplLoop_eq)
  qed
  have b: "cmplLoop c s =
        (if cmplCh_closed s
         then (Returned, (doCmpl_all s (cmplCh s))\<lparr>cmplCh := [], wg := wg s - 1\<rparr>)
         else (Blocked, (doCmpl_all s (cmplCh s))\<lparr>cmplCh := []\<rparr>))"
    if "\<forall>x \<in> set (cmplCh s). notLast c x"
    using that by (simp add: cmplLoop_eq)
  show ?thesis
    using a b by (simp add: doCmpl_all_freed cmplLoop_new_events)
qed

lemmas ex_defs = ex_a_def ex_b_def ex_scq_def ex_stream_def ex_obj_def ex_extern_def
  Obj0_def ObjHdr0_def ObjectAttrs0_def marker_def

theorem completion_exactly_once_witness:
  "new_events ex_scq (snd (cmplLoop ex_extern ex_scq)) =
     [ObjCallback 3 (Hdr ex_a) (Some 1) None None, Close 1, FreeSend ex_a] \<and>
   new_events ex_scq (snd (abortPending_cmplCh ex_extern ex_scq)) =
     new_events ex_scq
       (doCmpl_all ex_scq [\<lparr>cmpl_obj = ex_a, cmpl_err = None\<rparr>, \<lparr>cmpl_obj = ex_b, cmpl_err = None\<rparr>]) \<and>
   freed (new_events ex_scq
     (doCmpl_all ex_scq [\<lparr>cmpl_obj = ex_a, cmpl_err = None\<rparr>, \<lparr>cmpl_obj = ex_b, cmpl_err = None\<rparr>])) =
     [ex_a, ex_b] \<and>
   closed (new_events ex_scq
     (doCmpl_all ex_scq [\<lparr>cmpl_obj = ex_a, cmpl_err = None\<rparr>, \<lparr>cmpl_obj = ex_b, cmpl_err = None\<rparr>])) =
     [1, 2] \<and>
   filter is_callback (new_events ex_scq
     (doCmpl_all ex_scq [\<lparr>cmpl_obj = ex_a, cmpl_err = None\<rparr>, \<lparr>cmpl_obj = ex_b, cmpl_err = None\<rparr>])) =
     [ObjCallback 3 (Hdr ex_a) (Some 1) None None, StreamCallback 9 (Hdr ex_b) (Some 2) None None] \<and>
   filter is_callback (new_events ex_prc (snd (cmplLoop ex_extern ex_prc))) =
     [StreamCallback 9 (Hdr ex_b) (Some 2) None (Some (ErrExternal 1))] \<and>
   prcs (doCmpl_all ex_prc (cmplCh ex_prc)) 0 = 0 \<and>
   filter is_callback (new_events ex_prc (doCmpl_all ex_prc (take 2 (cmplCh ex_prc)))) = [] \<and>
   prcs (doCmpl_all ex_prc (take 2 (cmplCh ex_prc))) 0 = 1"
proof -
  have nl: "takeWhile (notLast ex_extern) (cmplCh ex_scq) = [\<lparr>cmpl_obj = ex_a, cmpl_err = None\<rparr>]"
    "filter (notLast ex_extern) (cmplCh ex_scq) =
       [\<lparr>cmpl_obj = ex_a, cmpl_err = None\<rparr>, \<lparr>cmpl_obj = ex_b, cmpl_err = None\<rparr>]"
    by (simp_all add: notLast_def IsLast_def hdr_IsLast_def ex_defs)
  have ev: "new_events ex_scq (doCmpl_all ex_scq [\<lparr>cmpl_obj = ex_a, cmpl_err = None\<rparr>]) =
      [ObjCallback 3 (Hdr ex_a) (Some 1) None None, Close 1, FreeSend ex_a]"
    by (simp add: new_events_def doCmpl_def Let_def ex_defs)
  have pr: "prc ex_a = None" "prc ex_b = None" "Reader ex_a = Some 1" "Reader ex_b = Some 2"
    "Callback ex_a = Some 3" "Callback ex_b = None" "callback ex_scq = Some 9"
    "CmplPtr ex_a = None" "CmplPtr ex_b = None"
    by (simp_all add: ex_defs)
  have first: "new_events ex_scq (snd (cmplLoop ex_extern ex_scq)) =
     [ObjCallback 3 (Hdr ex_a) (Some 1) None None, Close 1, FreeSend ex_a] \<and>
   new_events ex_scq (snd (abortPending_cmplCh ex_extern ex_scq)) =
     new_events ex_scq
       (doCmpl_all ex_scq [\<lparr>cmpl_obj = ex_a, cmpl_err = None\<rparr>, \<lparr>cmpl_obj = ex_b, cmpl_err = None\<rparr>]) \<and>
   freed (new_events ex_scq
     (doCmpl_all ex_scq [\<lparr>cmpl_obj = ex_a, cmpl_err = None\<rparr>, \<lparr>cmpl_obj = ex_b, cmpl_err = None\<rparr>])) =
     [ex_a, ex_b] \<and>
   closed (new_events ex_scq
     (doCmpl_all ex_scq [\<lparr>cmpl_obj = ex_a, cmpl_err = None\<rparr>, \<lparr>cmpl_obj = ex_b, cmpl_err = None\<rparr>])) =
     [1, 2] \<and>
   filter is_callback (new_events ex_scq
     (doCmpl_all ex_scq [\<lparr>cmpl_obj = ex_a, cmpl_err = None\<rparr>, \<lparr>cmpl_obj = ex_b, cmpl_err = None\<rparr>])) =
     [ObjCallback 3 (Hdr ex_a) (Some 1) None None, StreamCallback 9 (Hdr ex_b) (Some 2) None None]"
    using completion_exactly_once [where s = ex_scq and c = ex_extern
        and xs = "[\<lparr>cmpl_obj = ex_a, cmpl_err = None\<rparr>, \<lparr>cmpl_obj = ex_b, cmpl_err = None\<rparr>]"]
      abortPending_cmplCh_new_events [of ex_scq ex_extern] ev
    by (simp add: nl pr sent_callback_def List.map_filter_simps)
  have ch: "cmplCh ex_prc =
      [\<lparr>cmpl_obj = ex_b\<lparr>prc := Some 0\<rparr>, cmpl_err = None\<rparr>,
       \<lparr>cmpl_obj = ex_b\<lparr>prc := Some 0\<rparr>, cmpl_err = None\<rparr>,
       \<lparr>cmpl_obj = ex_b\<lparr>prc := Some 0\<rparr>, cmpl_err = Some (ErrExternal 1)\<rparr>]"
    "prcs ex_prc 0 = word_of_nat 3" "callback ex_prc = Some 9"
    by (simp_all add: ex_prc_def ex_stream_def)
  have tw: "takeWhile (notLast ex_extern) (cmplCh ex_prc) = cmplCh ex_prc"
    by (simp add: ch notLast_def IsLast_def hdr_IsLast_def ex_defs)
  have h3: "(\<forall>x \<in> set (cmplCh ex_prc). prc (cmpl_obj x) = Some 0) \<and>
      prcs ex_prc 0 = word_of_nat 3 \<and> (3::nat) < 2 ^ 64 \<and> length (cmplCh ex_prc) \<le> 3"
    by (simp add: ch)
  have h2: "(\<forall>x \<in> set (take 2 (cmplCh ex_prc)). prc (cmpl_obj x) = Some 0) \<and>
      prcs ex_prc 0 = word_of_nat 3 \<and> (3::nat) < 2 ^ 64 \<and> length (take 2 (cmplCh ex_prc)) \<le> 3"
    by (simp add: ch)
  have cb: "(if cmplCh ex_prc \<noteq> [] \<and> length (cmplCh ex_prc) = 3
             then sent_callback ex_prc (last (cmplCh ex_prc)) else []) =
      [StreamCallback 9 (Hdr ex_b) (Some 2) None (Some (ErrExternal 1))]"
    "(if take 2 (cmplCh ex_prc) \<noteq> [] \<and> length (take 2 (cmplCh ex_prc)) = 3
             then sent_callback ex_prc (last (take 2 (cmplCh ex_prc))) else []) = []"
    "(word_of_nat (3 - length (cmplCh ex_prc)) :: int64) = 0"
    "(word_of_nat (3 - length (take 2 (cmplCh ex_prc))) :: int64) = 1"
    by (simp_all add: ch sent_callback_def ex_defs)
  note t3 = completion_exactly_once [where s = ex_prc and c = ex_extern
        and xs = "cmplCh ex_prc" and p = 0 and n = 3]
  note t2 = completion_exactly_once [where s = ex_prc and c = ex_extern
        and xs = "take 2 (cmplCh ex_prc)" and p = 0 and n = 3]
  have l3: "new_events ex_prc (snd (cmplLoop ex_extern ex_prc)) =
      new_events ex_prc (doCmpl_all ex_prc (cmplCh ex_prc))"
    using t3 unfolding tw by blast
  have c3: "filter is_callback (new_events ex_prc (doCmpl_all ex_prc (cmplCh ex_prc))) =
      (if cmplCh ex_prc \<noteq> [] \<and> length (cmplCh ex_prc) = 3
       then sent_callback ex_prc (last (cmplCh ex_prc)) else []) \<and>
      prcs (doCmpl_all ex_prc (cmplCh ex_prc)) 0 = word_of_nat (3 - length (cmplCh ex_prc))"
    using t3 h3 by blast
  have c2: "filter is_callback (new_events ex_prc (doCmpl_all ex_prc (take 2 (cmplCh ex_prc)))) =
      (if take 2 (cmplCh ex_prc) \<noteq> [] \<and> length (take 2 (cmplCh ex_prc)) = 3
       then sent_callback ex_prc (last (take 2 (cmplCh ex_prc))) else []) \<and>
      prcs (doCmpl_all ex_prc (take 2 (cmplCh ex_prc))) 0 =
        word_of_nat (3 - length (take 2 (cmplCh ex_prc)))"
    using t2 h2 by blast
  have third: "filter is_callback (new_events ex_prc (snd (cmplLoop ex_extern ex_prc))) =
     [StreamCallback 9 (Hdr ex_b) (Some 2) None (Some (ErrExternal 1))] \<and>
   prcs (doCmpl_all ex_prc (cmplCh ex_prc)) 0 = 0"
    using c3 unfolding l3 cb by simp
  have two: "filter is_callback (new_events ex_prc (doCmpl_all ex_prc (take 2 (cmplCh ex_prc)))) = [] \<and>
   prcs (doCmpl_all ex_prc (take 2 (cmplCh ex_prc))) 0 = 1"
    using c2 unfolding cb by simp
  from first third two show ?thesis by blast
qed

theorem cmplLoop_stops_at_lastMarker_witness:
  "cmplLoop ex_extern ex_scq =
     (Returned, ex_scq\<lparr>cmplCh := [\<lparr>cmpl_obj = ex_b, cmpl_err = None\<rparr>], wg := 0,
        events := [ObjCallback 3 (Hdr ex_a) (Some 1) None None, Close 1, FreeSend ex_a]\<rparr>)"
  using cmplLoop_stops_at_lastMarker [where s = ex_scq and c = ex_extern
      and pre = "[\<lparr>cmpl_obj = ex_a, cmpl_err = None\<rparr>]"
      and m = "\<lparr>cmpl_obj = marker (lastMarker ex_extern), cmpl_err = Some (ErrExternal 1)\<rparr>"
      and post = "[\<lparr>cmpl_obj = ex_b, cmpl_err = None\<rparr>]"]
  by (simp add: ex_defs notLast_def IsLast_def hdr_IsLast_def doCmpl_def Let_def)

theorem per_object_callback_only_witness:
  "fires ex_scq ex_a \<and> Callback ex_a = Some 3 \<and>
   filter is_callback (new_events ex_scq (doCmpl ex_scq ex_a None)) =
     [ObjCallback 3 (Hdr ex_a) (Some 1) None None] \<and>
   StreamCallback 9 (Hdr ex_b) (Some 2) None None \<in> set (new_events ex_scq (doCmpl ex_scq ex_b None)) \<and>
   Callback ex_b = None \<and> callback ex_scq = Some 9 \<and> fires ex_scq ex_b"
  using per_object_callback_only [where s = ex_scq and ob = ex_a and f = 3 and err = None]
    per_object_callback_only [where s = ex_scq and ob = ex_b and err = None and g = 9
      and h = "Hdr ex_b" and r = "Some 2" and p = None and e = None]
  by (simp add: ex_defs fires_def doCmpl_def new_events_def Let_def)

theorem lastMarker_never_completed_witness:
  "filter (ev_IsLast ex_extern) (new_events ex_scq (snd (cmplLoop ex_extern ex_scq))) = [] \<and>
   new_events ex_scq (snd (cmplLoop ex_extern ex_scq)) =
     [ObjCallback 3 (Hdr ex_a) (Some 1) None None, Close 1, FreeSend ex_a] \<and>
   filter (ev_IsLast ex_extern)
     (new_events ex_scq (snd (abortPending_cmplCh ex_extern ex_scq))) = [] \<and>
   freed (new_events ex_scq (snd (abortPending_cmplCh ex_extern ex_scq))) = [ex_a, ex_b] \<and>
   filter (ev_IsLast ex_extern)
     (new_events (ex_scq\<lparr>workCh := [ex_b]\<rparr>)
        (snd (abortPending ex_extern (ex_scq\<lparr>workCh := [ex_b]\<rparr>) (Some (ErrExternal 2)) True))) = []"
proof -
  have a: "cmplLoop ex_extern ex_scq =
     (Returned, ex_scq\<lparr>cmplCh := [\<lparr>cmpl_obj = ex_b, cmpl_err = None\<rparr>], wg := 0,
        events := [ObjCallback 3 (Hdr ex_a) (Some 1) None None, Close 1, FreeSend ex_a]\<rparr>)"
    by (simp add: cmplLoop.simps ex_defs IsLast_def hdr_IsLast_def doCmpl_def Let_def)
  have b: "freed (new_events ex_scq (snd (abortPending_cmplCh ex_extern ex_scq))) = [ex_a, ex_b]"
    by (simp add: abortPending_cmplCh_new_events doCmpl_all_freed)
      (simp add: ex_defs notLast_def IsLast_def hdr_IsLast_def)
  have c: "\<forall>ob \<in> set (workCh (ex_scq\<lparr>workCh := [ex_b]\<rparr>)). \<not> IsLast ex_extern ob"
    by (simp add: ex_defs IsLast_def hdr_IsLast_def)
  have d: "new_events ex_scq (snd (cmplLoop ex_extern ex_scq)) =
     [ObjCallback 3 (Hdr ex_a) (Some 1) None None, Close 1, FreeSend ex_a]"
    unfolding a by (simp add: new_events_def ex_scq_def ex_stream_def)
  show ?thesis
    using lastMarker_never_completed [where s = ex_scq and c = ex_extern
        and err = "Some (ErrExternal 2)" and completions = True]
      lastMarker_never_completed [where s = "ex_scq\<lparr>workCh := [ex_b]\<rparr>" and c = ex_extern
        and err = "Some (ErrExternal 2)" and completions = True]
      b c d
    by (simp add: filter_empty_conv)
qed

subsection \<open>Termination\<close>

text \<open>
  Claim C2, as stated, fails: \<^verbatim>\<open>terminate\<close> asserts that the stream has not been
  terminated, so a second call panics.
\<close>

theorem terminate_twice_counterexample:
  "fst (terminate ex_extern ex_lz ex_stream) = Returned \<and>
   fst (terminate ex_extern ex_lz (snd (terminate ex_extern ex_lz ex_stream))) = Panicked"
  by (simp add: terminate_def Stop_def compressed_def ex_stream_def Let_def)

text \<open>
  Claim C2, amended. \<^verbatim>\<open>terminate\<close> runs once for a stream. On a stream that has not
  been terminated (and whose SCQ is open) it returns, having set \<^verbatim>\<open>terminated\<close>, stopped
  the stream, enqueued one last-marker completion that carries \<^verbatim>\<open>term.err\<close>, removed
  the stream from the collector and freed the LZ4 state: on a compressed stream the SGL is
  freed and the writer, when there is one, is reset; on an uncompressed stream both are as
  they were. On a terminated stream, so also when called a second time, it fails its
  assertion and changes nothing.
\<close>

theorem terminate_once:
  "(\<not> terminated s \<and> \<not> cmplCh_closed s \<longrightarrow>
      fst (terminate c lz s) = Returned \<and>
      terminated (snd (terminate c lz s)) \<and>
      stopCh_closed (snd (terminate c lz s)) \<and>
      cmplCh (snd (terminate c lz s)) =
        cmplCh s @ [\<lparr>cmpl_obj = marker (lastMarker c), cmpl_err = term_err s\<rparr>] \<and>
      \<not> registered (snd (terminate c lz s)) \<and>
      sgl_freed (snd (terminate c lz s)) = (if compressed s then True else sgl_freed s) \<and>
      zw (snd (terminate c lz s)) =
        (if compressed s then map_option (zw_Reset lz) (zw s) else zw s) \<and>
      terminate c lz (snd (terminate c lz s)) = (Panicked, snd (terminate c lz s))) \<and>
   (terminated s \<longrightarrow> terminate c lz s = (Panicked, s))"
  by (simp add: terminate_def Stop_def compressed_def Let_def)

theorem terminate_once_witness:
  "fst (terminate ex_extern ex_lz ex_scq) = Returned \<and>
   terminated (snd (terminate ex_extern ex_lz ex_scq)) \<and>
   cmplCh (snd (terminate ex_extern ex_lz ex_scq)) =
     cmplCh ex_scq @ [\<lparr>cmpl_obj = marker (lastMarker ex_extern), cmpl_err = None\<rparr>] \<and>
   sgl_freed (snd (terminate ex_extern ex_lz ex_scq)) = False \<and>
   terminate ex_extern ex_lz (snd (terminate ex_extern ex_lz ex_scq)) =
     (Panicked, snd (terminate ex_extern ex_lz ex_scq)) \<and>
   terminate ex_extern ex_lz (ex_scq\<lparr>terminated := True\<rparr>) = (Panicked, ex_scq\<lparr>terminated := True\<rparr>) \<and>
   fst (terminate ex_extern ex_lzbuf (ex_lzs\<lparr>zw := Some [7]\<rparr>)) = Returned \<and>
   sgl_freed (snd (terminate ex_extern ex_lzbuf (ex_lzs\<lparr>zw := Some [7]\<rparr>))) = True \<and>
   zw (snd (terminate ex_extern ex_lzbuf (ex_lzs\<lparr>zw := Some [7]\<rparr>))) = Some []"
  using terminate_once [where s = ex_scq and c = ex_extern and lz = ex_lz]
    terminate_once [where s = "ex_scq\<lparr>terminated := True\<rparr>" and c = ex_extern and lz = ex_lz]
    terminate_once [where s = "ex_lzs\<lparr>zw := Some [7]\<rparr>" and c = ex_extern and lz = ex_lzbuf]
  by (simp add: ex_scq_def ex_lzs_def ex_lzbuf_def ex_stream_def compressed_def)

subsection \<open>A short read\<close>

lemma doCmpl_all_callback_frame: "callback (doCmpl_all s xs) = callback s"
  by (induction xs arbitrary: s) (simp_all add: doCmpl_callback_frame)

lemma Read_short:
  assumes "inSend c s" "ins (sendoff s) = inData c" "\<not> IsHeaderOnly c (obj (sendoff s))"
    "Reader (obj (sendoff s)) = Some r" "readers s r = (bs, Some EOF) # rest"
    "sint (off (sendoff s) + word_of_nat (length bs)) < sint (Size (ObjAttrs (Hdr (obj (sendoff s)))))"
  shows "Read c s blen =
     (Ret bs (Some (ErrReadShorter (off (sendoff s) + word_of_nat (length bs))
                      (Size (ObjAttrs (Hdr (obj (sendoff s))))))),
      s\<lparr>time_inSend := True, readers := (readers s)(r := rest),
        sendoff := (sendoff s)\<lparr>off := off (sendoff s) + word_of_nat (length bs)\<rparr>\<rparr>)"
  using assms by (auto simp: Read_def sendData_def inSend_def Let_def)

text \<open>
  Claim C3. When the reader of the object being sent returns \<^verbatim>\<open>io.EOF\<close> and the offset,
  with the bytes just read, is still less than the declared size, the transmission fails:
  \<^verbatim>\<open>Read\<close> returns the short-read error (which is not \<^verbatim>\<open>io.EOF\<close>), with the object still in
  \<^verbatim>\<open>sendoff\<close>. \<^verbatim>\<open>errCmpl\<close>, called with the error \<^verbatim>\<open>Read\<close> returned, posts to SCQ one completion
  of that object carrying the short-read error, after the completions already there; and
  \<^verbatim>\<open>cmplLoop\<close>, having handled those, runs \<^verbatim>\<open>doCmpl\<close> for the object with the short-read
  error, so that the callback invoked for the object (its own, else the stream's) receives
  that error.
\<close>

theorem short_read_is_completion_error:
  "inSend c s \<and> ins (sendoff s) = inData c \<and> \<not> IsHeaderOnly c (obj (sendoff s)) \<and>
   Reader (obj (sendoff s)) = Some r \<and> readers s r = (bs, Some EOF) # rest \<and>
   sint (off (sendoff s) + word_of_nat (length bs)) < sint (Size (ObjAttrs (Hdr (obj (sendoff s))))) \<and>
   \<not> cmplCh_closed s \<and>
   e = ErrReadShorter (off (sendoff s) + word_of_nat (length bs))
         (Size (ObjAttrs (Hdr (obj (sendoff s))))) \<and>
   ob = obj (sendoff s) \<and>
   sr = snd (Read c s blen) \<and> sc = snd (errCmpl c sr (Some e)) \<and>
   sp = doCmpl_all sc (cmplCh s) \<longrightarrow>
     fst (Read c s blen) = Ret bs (Some e) \<and> e \<noteq> EOF \<and>
     obj (sendoff sr) = ob \<and> cmplCh sr = cmplCh s \<and>
     fst (errCmpl c sr (Some e)) = Returned \<and>
     cmplCh sc = cmplCh s @ [\<lparr>cmpl_obj = ob, cmpl_err = Some e\<rparr>] \<and>
     events sc = events s \<and>
     ((\<forall>x \<in> set (cmplCh s). notLast c x) \<longrightarrow>
        new_events sc (snd (cmplLoop c sc)) = new_events sc (doCmpl sp ob (Some e)) \<and>
        filter is_callback (new_events sp (doCmpl sp ob (Some e))) =
          (if fires sp ob then
             (case Callback ob of
                Some f \<Rightarrow> [ObjCallback f (Hdr ob) (Reader ob) (CmplPtr ob) (Some e)]
              | None \<Rightarrow>
                  (case callback s of
                     Some g \<Rightarrow> [StreamCallback g (Hdr ob) (Reader ob) (CmplPtr ob) (Some e)]
                   | None \<Rightarrow> []))
           else []))"
proof (intro impI, elim conjE)
  assume a: "inSend c s" "ins (sendoff s) = inData c" "\<not> IsHeaderOnly c (obj (sendoff s))"
    "Reader (obj (sendoff s)) = Some r" "readers s r = (bs, Some EOF) # rest"
    "sint (off (sendoff s) + word_of_nat (length bs)) < sint (Size (ObjAttrs (Hdr (obj (sendoff s)))))"
  assume op: "\<not> cmplCh_closed s"
  assume e: "e = ErrReadShorter (off (sendoff s) + word_of_nat (length bs))
         (Size (ObjAttrs (Hdr (obj (sendoff s)))))"
  assume ob: "ob = obj (sendoff s)"
  assume sr: "sr = snd (Read c s blen)" and sc: "sc = snd (errCmpl c sr (Some e))"
  assume sp: "sp = doCmpl_all sc (cmplCh s)"
  note R = Read_short [OF a, of blen]
  have sr': "sr = s\<lparr>time_inSend := True, readers := (readers s)(r := rest),
        sendoff := (sendoff s)\<lparr>off := off (sendoff s) + word_of_nat (length bs)\<rparr>\<rparr>"
    unfolding sr R by simp
  have ins: "inSend c sr"
    using a(1) by (simp add: sr' inSend_def)
  have E: "errCmpl c sr (Some e) =
      (Returned, sr\<lparr>cmplCh := cmplCh s @ [\<lparr>cmpl_obj = ob, cmpl_err = Some e\<rparr>]\<rparr>)"
    using ins op by (simp add: errCmpl_def) (simp add: sr' ob)
  have sc': "sc = sr\<lparr>cmplCh := cmplCh s @ [\<lparr>cmpl_obj = ob, cmpl_err = Some e\<rparr>]\<rparr>"
    unfolding sc E by simp
  have nl: "notLast c \<lparr>cmpl_obj = ob, cmpl_err = Some e\<rparr>"
    using a(3) by (simp add: notLast_def IsLast_def IsHeaderOnly_def ob)
  have loop: "new_events sc (snd (cmplLoop c sc)) = new_events sc (doCmpl sp ob (Some e))"
    if "\<forall>x \<in> set (cmplCh s). notLast c x"
  proof -
    have "takeWhile (notLast c) (cmplCh sc) = cmplCh s @ [\<lparr>cmpl_obj = ob, cmpl_err = Some e\<rparr>]"
      using that nl by (simp add: sc')
    then show ?thesis
      by (simp add: cmplLoop_new_events doCmpl_all_append sp)
  qed
  have cb: "callback sp = callback s"
    by (simp add: sp doCmpl_all_callback_frame) (simp add: sc' sr')
  have cbs: "filter is_callback (new_events sp (doCmpl sp ob (Some e))) =
          (if fires sp ob then
             (case Callback ob of
                Some f \<Rightarrow> [ObjCallback f (Hdr ob) (Reader ob) (CmplPtr ob) (Some e)]
              | None \<Rightarrow>
                  (case callback s of
                     Some g \<Rightarrow> [StreamCallback g (Hdr ob) (Reader ob) (CmplPtr ob) (Some e)]
                   | None \<Rightarrow> []))
           else [])"
    using doCmpl_callbacks [of sp ob "Some e"] unfolding cb .
  have p1: "fst (Read c s blen) = Ret bs (Some e) \<and> e \<noteq> EOF \<and>
     obj (sendoff sr) = ob \<and> cmplCh sr = cmplCh s \<and>
     fst (errCmpl c sr (Some e)) = Returned \<and>
     cmplCh sc = cmplCh s @ [\<lparr>cmpl_obj = ob, cmpl_err = Some e\<rparr>] \<and>
     events sc = events s"
    by (simp add: R E) (simp add: e sc' sr' ob)
  show "fst (Read c s blen) = Ret bs (Some e) \<and> e \<noteq> EOF \<and>
     obj (sendoff sr) = ob \<and> cmplCh sr = cmplCh s \<and>
     fst (errCmpl c sr (Some e)) = Returned \<and>
     cmplCh sc = cmplCh s @ [\<lparr>cmpl_obj = ob, cmpl_err = Some e\<rparr>] \<and>
     events sc = events s \<and>
     ((\<forall>x \<in> set (cmplCh s). notLast c x) \<longrightarrow>
        new_events sc (snd (cmplLoop c sc)) = new_events sc (doCmpl sp ob (Some e)) \<and>
        filter is_callback (new_events sp (doCmpl sp ob (Some e))) =
          (if fires sp ob then
             (case Callback ob of
                Some f \<Rightarrow> [ObjCallback f (Hdr ob) (Reader ob) (CmplPtr ob) (Some e)]
              | None \<Rightarrow>
                  (case callback s of
                     Some g \<Rightarrow> [StreamCallback g (Hdr ob) (Reader ob) (CmplPtr ob) (Some e)]
                   | None \<Rightarrow> []))
           else []))"
    using p1 loop cbs by blast
qed

theorem short_read_is_completion_error_witness:
  "fst (Read ex_extern ex_short 16) = Ret [1, 2] (Some (ErrReadShorter 2 5)) \<and>
   cmplCh (snd (Read ex_extern ex_short 16)) = [] \<and>
   errCmpl ex_extern (snd (Read ex_extern ex_short 16)) (Some (ErrReadShorter 2 5)) =
     (Returned, ex_short\<lparr>time_inSend := True, readers := (\<lambda>r. []),
        sendoff := \<lparr>obj = ex_a, off = 2, ins = 3\<rparr>,
        cmplCh := [\<lparr>cmpl_obj = ex_a, cmpl_err = Some (ErrReadShorter 2 5)\<rparr>]\<rparr>) \<and>
   new_events (snd (errCmpl ex_extern (snd (Read ex_extern ex_short 16)) (Some (ErrReadShorter 2 5))))
     (snd (cmplLoop ex_extern
        (snd (errCmpl ex_extern (snd (Read ex_extern ex_short 16)) (Some (ErrReadShorter 2 5)))))) =
     [ObjCallback 3 (Hdr ex_a) (Some 1) None (Some (ErrReadShorter 2 5)), Close 1, FreeSend ex_a]"
proof -
  have R: "Read ex_extern ex_short 16 =
      (Ret [1, 2] (Some (ErrReadShorter 2 5)),
       ex_short\<lparr>time_inSend := True, readers := (\<lambda>r. []),
         sendoff := \<lparr>obj = ex_a, off = 2, ins = 3\<rparr>\<rparr>)"
    by (simp add: Read_def sendData_def inSend_def IsHeaderOnly_def hdr_IsLast_def Let_def
        ex_short_def ex_defs fun_upd_idem)
  have E: "errCmpl ex_extern (ex_short\<lparr>time_inSend := True, readers := (\<lambda>r. []),
         sendoff := \<lparr>obj = ex_a, off = 2, ins = 3\<rparr>\<rparr>) (Some (ErrReadShorter 2 5)) =
     (Returned, ex_short\<lparr>time_inSend := True, readers := (\<lambda>r. []),
        sendoff := \<lparr>obj = ex_a, off = 2, ins = 3\<rparr>,
        cmplCh := [\<lparr>cmpl_obj = ex_a, cmpl_err = Some (ErrReadShorter 2 5)\<rparr>]\<rparr>)"
    by (simp add: errCmpl_def inSend_def ex_short_def ex_defs)
  have D: "new_events (ex_short\<lparr>time_inSend := True, readers := (\<lambda>r. []),
        sendoff := \<lparr>obj = ex_a, off = 2, ins = 3\<rparr>,
        cmplCh := [\<lparr>cmpl_obj = ex_a, cmpl_err = Some (ErrReadShorter 2 5)\<rparr>]\<rparr>)
      (doCmpl (ex_short\<lparr>time_inSend := True, readers := (\<lambda>r. []),
        sendoff := \<lparr>obj = ex_a, off = 2, ins = 3\<rparr>,
        cmplCh := [\<lparr>cmpl_obj = ex_a, cmpl_err = Some (ErrReadShorter 2 5)\<rparr>]\<rparr>) ex_a
        (Some (ErrReadShorter 2 5))) =
     [ObjCallback 3 (Hdr ex_a) (Some 1) None (Some (ErrReadShorter 2 5)), Close 1, FreeSend ex_a]"
    by (simp add: new_events_def doCmpl_def Let_def ex_short_def ex_defs)
  have A: "\<not> IsHeaderOnly ex_extern ex_a" "Reader ex_a = Some 1" "Size (ObjAttrs (Hdr ex_a)) = 5"
    "Callback ex_a = Some 3" "CmplPtr ex_a = None" "prc ex_a = None"
    by (simp_all add: IsHeaderOnly_def hdr_IsLast_def ex_defs)
  have H: "inSend ex_extern ex_short \<and> ins (sendoff ex_short) = inData ex_extern \<and>
      \<not> IsHeaderOnly ex_extern (obj (sendoff ex_short)) \<and>
      Reader (obj (sendoff ex_short)) = Some 1 \<and> readers ex_short 1 = ([1, 2], Some EOF) # [] \<and>
      sint (off (sendoff ex_short) + word_of_nat (length [1 :: byte, 2])) <
        sint (Size (ObjAttrs (Hdr (obj (sendoff ex_short))))) \<and>
      \<not> cmplCh_closed ex_short \<and>
      ErrReadShorter 2 5 = ErrReadShorter (off (sendoff ex_short) + word_of_nat (length [1 :: byte, 2]))
         (Size (ObjAttrs (Hdr (obj (sendoff ex_short))))) \<and>
      ex_a = obj (sendoff ex_short) \<and> cmplCh ex_short = []"
    by (simp add: inSend_def IsHeaderOnly_def hdr_IsLast_def ex_short_def ex_defs)
  show ?thesis
    using short_read_is_completion_error [where s = ex_short and c = ex_extern and blen = 16
        and r = 1 and bs = "[1, 2]" and rest = "[]" and e = "ErrReadShorter 2 5" and ob = ex_a
        and sr = "snd (Read ex_extern ex_short 16)"
        and sc = "snd (errCmpl ex_extern (snd (Read ex_extern ex_short 16)) (Some (ErrReadShorter 2 5)))"
        and sp = "snd (errCmpl ex_extern (snd (Read ex_extern ex_short 16)) (Some (ErrReadShorter 2 5)))"]
      H
    by (simp add: R E D A)
qed

subsection \<open>End of object\<close>

lemma eoObj_Some:
  "\<not> cmplCh_closed s \<Longrightarrow> \<exists>s'. eoObj c s err = Some s'"
  by (simp add: eoObj_def Let_def)

lemma eoObj_facts:
  assumes "eoObj c s err = Some s'"
  shows "cmplCh s' = cmplCh s @
           [\<lparr>cmpl_obj = obj (sendoff s),
             cmpl_err = (if err \<noteq> None then err
                         else if sent_ok c (sendoff s, err) then None
                         else Some (ErrOffsetNeSize (off (sendoff s))))\<rparr>]"
    and "sendoff s' = \<lparr>obj = Obj0, off = 0, ins = inEOB c\<rparr>"
    and "Sizecur s' = Sizecur s + off (sendoff s)"
    and "stats_Offset s' = stats_Offset s + off (sendoff s)"
    and "stats_Size s' = stats_Size s + (if sent_ok c (sendoff s, err) then off (sendoff s) else 0)"
    and "stats_Num s' = stats_Num s + (if sent_ok c (sendoff s, err) then 1 else 0)"
    and "Numcur s' = Numcur s + (if sent_ok c (sendoff s, err) then 1 else 0)"
    and "cmplCh_closed s' = cmplCh_closed s"
  using assms
  by (auto simp: eoObj_def sent_ok_def Let_def split: if_splits)

lemma eoObj_run_Some:
  "\<not> cmplCh_closed s \<Longrightarrow> \<exists>s'. eoObj_run c s xs = Some s'"
proof (induction xs arbitrary: s)
  case Nil
  show ?case by simp
next
  case (Cons x xs)
  obtain s1 where s1: "eoObj c (s\<lparr>sendoff := fst x\<rparr>) (snd x) = Some s1"
    using eoObj_Some [of "s\<lparr>sendoff := fst x\<rparr>" c "snd x"] Cons.prems by auto
  have "\<not> cmplCh_closed s1"
    using eoObj_facts(8) [OF s1] Cons.prems by simp
  then show ?case
    using Cons.IH [of s1] s1 by simp
qed

lemma eoObj_run_facts:
  "eoObj_run c s xs = Some s' \<Longrightarrow>
     stats_Size s' = stats_Size s + sum_list (map (\<lambda>x. off (fst x)) (filter (sent_ok c) xs)) \<and>
     stats_Num s' = stats_Num s + word_of_nat (length (filter (sent_ok c) xs)) \<and>
     (\<exists>ps. cmplCh s' = cmplCh s @ ps \<and>
        map cmpl_obj ps = map (\<lambda>x. obj (fst x)) xs \<and>
        map (\<lambda>p. cmpl_err p = None) ps = map (sent_ok c) xs)"
proof (induction xs arbitrary: s)
  case Nil
  then show ?case by simp
next
  case (Cons x xs)
  from Cons.prems obtain s1 where
    s1: "eoObj c (s\<lparr>sendoff := fst x\<rparr>) (snd x) = Some s1" and run: "eoObj_run c s1 xs = Some s'"
    by (auto split: option.splits)
  have ok: "sent_ok c (sendoff (s\<lparr>sendoff := fst x\<rparr>), snd x) = sent_ok c x"
    by simp
  have errn: "sent_ok c x \<Longrightarrow> snd x = None"
    by (simp add: sent_ok_def)
  note f = eoObj_facts [OF s1, unfolded ok]
  from Cons.IH [OF run] obtain ps where
    ih: "stats_Size s' = stats_Size s1 + sum_list (map (\<lambda>x. off (fst x)) (filter (sent_ok c) xs))"
      "stats_Num s' = stats_Num s1 + word_of_nat (length (filter (sent_ok c) xs))"
      "cmplCh s' = cmplCh s1 @ ps"
      "map cmpl_obj ps = map (\<lambda>x. obj (fst x)) xs"
      "map (\<lambda>p. cmpl_err p = None) ps = map (sent_ok c) xs"
    by blast
  have a: "stats_Size s' =
      stats_Size s + sum_list (map (\<lambda>x. off (fst x)) (filter (sent_ok c) (x # xs)))"
    using ih(1) f(5) by simp
  have b: "stats_Num s' = stats_Num s + word_of_nat (length (filter (sent_ok c) (x # xs)))"
    using ih(2) f(6) by simp
  let ?p = "\<lparr>cmpl_obj = obj (fst x),
             cmpl_err = (if snd x \<noteq> None then snd x
                         else if sent_ok c x then None
                         else Some (ErrOffsetNeSize (off (fst x))))\<rparr>"
  have c1: "cmplCh s' = cmplCh s @ (?p # ps)"
    using ih(3) f(1) by simp
  have c2: "map cmpl_obj (?p # ps) = map (\<lambda>x. obj (fst x)) (x # xs)"
    using ih(4) by simp
  have c3: "map (\<lambda>p. cmpl_err p = None) (?p # ps) = map (sent_ok c) (x # xs)"
    using ih(5) errn by auto
  from a b c1 c2 c3 show ?case by blast
qed

text \<open>
  Claim C4. A call of \<^verbatim>\<open>eoObj\<close> (on an open SCQ it always returns) posts exactly one
  completion, of the object in \<^verbatim>\<open>sendoff\<close>, and resets \<^verbatim>\<open>sendoff\<close> to
  \<^verbatim>\<open>{ins: inEOB}\<close>; it adds the offset to \<^verbatim>\<open>Sizecur\<close> and \<^verbatim>\<open>stats.Offset\<close> in every case.
  The completion's error is the one passed in, else the offset error when the offset
  differs from the size of a sized object, else nil; an unsized object takes the offset as
  its size. \<^verbatim>\<open>stats.Size\<close> grows by the object's size and \<^verbatim>\<open>stats.Num\<close> and \<^verbatim>\<open>Numcur\<close> by
  one exactly when the completion's error is nil, and not at all otherwise. So over any
  sequence of objects brought to their end, \<^verbatim>\<open>stats.Size\<close> grows by the sum of the payload
  bytes of those completed without error, and \<^verbatim>\<open>stats.Num\<close> by their number.
\<close>

theorem eoObj_posts_and_counts:
  "(\<not> cmplCh_closed s \<longrightarrow> eoObj c s err \<noteq> None \<and> eoObj_run c s xs \<noteq> None) \<and>
   (eoObj c s err = Some s' \<longrightarrow>
      cmplCh s' = cmplCh s @
        [\<lparr>cmpl_obj = obj (sendoff s),
          cmpl_err = (if err \<noteq> None then err
                      else if sent_ok c (sendoff s, err) then None
                      else Some (ErrOffsetNeSize (off (sendoff s))))\<rparr>] \<and>
      sendoff s' = \<lparr>obj = Obj0, off = 0, ins = inEOB c\<rparr> \<and>
      Sizecur s' = Sizecur s + off (sendoff s) \<and>
      stats_Offset s' = stats_Offset s + off (sendoff s) \<and>
      stats_Size s' = stats_Size s +
        (if sent_ok c (sendoff s, err)
         then (if IsUnsized c (obj (sendoff s)) then off (sendoff s)
               else Size (ObjAttrs (Hdr (obj (sendoff s)))))
         else 0) \<and>
      stats_Num s' = stats_Num s + (if sent_ok c (sendoff s, err) then 1 else 0) \<and>
      Numcur s' = Numcur s + (if sent_ok c (sendoff s, err) then 1 else 0)) \<and>
   (eoObj_run c s xs = Some sr \<longrightarrow>
      stats_Size sr = stats_Size s + sum_list (map (\<lambda>x. off (fst x)) (filter (sent_ok c) xs)) \<and>
      stats_Num sr = stats_Num s + word_of_nat (length (filter (sent_ok c) xs)) \<and>
      (\<exists>ps. cmplCh sr = cmplCh s @ ps \<and>
         map cmpl_obj ps = map (\<lambda>x. obj (fst x)) xs \<and>
         map (\<lambda>p. cmpl_err p = None) ps = map (sent_ok c) xs))"
proof -
  have a: "eoObj c s err \<noteq> None \<and> eoObj_run c s xs \<noteq> None" if "\<not> cmplCh_closed s"
    using eoObj_Some [OF that, of c err] eoObj_run_Some [OF that, of c xs] by auto
  have sz: "sent_ok c (sendoff s, err) \<Longrightarrow>
      (if IsUnsized c (obj (sendoff s)) then off (sendoff s)
       else Size (ObjAttrs (Hdr (obj (sendoff s))))) = off (sendoff s)"
    by (simp add: sent_ok_def split: if_splits)
  show ?thesis
    using a eoObj_facts [of c s err s'] eoObj_run_facts [of c s xs sr] sz
    by (intro conjI impI) simp_all
qed

theorem eoObj_posts_and_counts_witness:
  "eoObj_run ex_extern ex_scq ex_three \<noteq> None \<and>
   stats_Size (the (eoObj_run ex_extern ex_scq ex_three)) = 10486784 \<and>
   stats_Num (the (eoObj_run ex_extern ex_scq ex_three)) = 3 \<and>
   eoObj ex_extern ex_short (Some (ErrExternal 5)) \<noteq> None \<and>
   cmplCh (the (eoObj ex_extern ex_short (Some (ErrExternal 5)))) =
     [\<lparr>cmpl_obj = ex_a, cmpl_err = Some (ErrExternal 5)\<rparr>] \<and>
   stats_Size (the (eoObj ex_extern ex_short (Some (ErrExternal 5)))) = 0 \<and>
   sendoff (the (eoObj ex_extern ex_short (Some (ErrExternal 5)))) = \<lparr>obj = Obj0, off = 0, ins = 4\<rparr>"
proof -
  have c: "\<not> cmplCh_closed ex_scq" "\<not> cmplCh_closed ex_short"
    by (simp_all add: ex_scq_def ex_short_def ex_stream_def)
  have ok: "filter (sent_ok ex_extern) ex_three = ex_three"
    by (simp add: ex_three_def sent_ok_def IsUnsized_def hdr_IsUnsized_def ex_defs)
  note t1 = eoObj_posts_and_counts [where s = ex_scq and c = ex_extern and xs = ex_three
      and err = None and sr = "the (eoObj_run ex_extern ex_scq ex_three)"]
  note t2 = eoObj_posts_and_counts [where s = ex_short and c = ex_extern and xs = "[]"
      and err = "Some (ErrExternal 5)"
      and s' = "the (eoObj ex_extern ex_short (Some (ErrExternal 5)))"]
  have r: "eoObj_run ex_extern ex_scq ex_three \<noteq> None"
    using t1 c by blast
  have e: "eoObj ex_extern ex_short (Some (ErrExternal 5)) \<noteq> None"
    using t2 c by blast
  have a: "stats_Size (the (eoObj_run ex_extern ex_scq ex_three)) = 10486784"
    "stats_Num (the (eoObj_run ex_extern ex_scq ex_three)) = 3"
    using t1 r by (auto simp: ok) (simp_all add: ex_three_def ex_scq_def ex_stream_def)
  have b: "cmplCh (the (eoObj ex_extern ex_short (Some (ErrExternal 5)))) =
       [\<lparr>cmpl_obj = ex_a, cmpl_err = Some (ErrExternal 5)\<rparr>]"
    "stats_Size (the (eoObj ex_extern ex_short (Some (ErrExternal 5)))) = 0"
    "sendoff (the (eoObj ex_extern ex_short (Some (ErrExternal 5)))) = \<lparr>obj = Obj0, off = 0, ins = 4\<rparr>"
    using t2 e by (auto simp: sent_ok_def) (simp_all add: ex_short_def ex_stream_def ex_extern_def)
  from r e a b show ?thesis by blast
qed

subsection \<open>\<^verbatim>\<open>Read\<close> between objects\<close>

lemma Read_between:
  "between_objects c s \<Longrightarrow> Read c s blen = Read_repeat c (s\<lparr>time_inSend := True\<rparr>) blen"
  by (auto simp: Read_def between_objects_def inSend_def Let_def)

lemma select_Read_time [simp]: "select_Read (s\<lparr>time_inSend := b\<rparr>) = select_Read s"
  by (simp add: select_Read_def)



lemma sendHdr_bytes:
  "sendHdr c s blen = (Ret bs e, s') \<Longrightarrow> \<exists>k. bs = take blen (drop k (header s))"
  by (auto simp: sendHdr_def Let_def split: if_splits)

lemma Read_repeat_bytes:
  "Read_repeat c s blen = (Ret bs e, s') \<Longrightarrow>
     bs = [] \<or>
     (\<exists>ob \<in> set (workCh s). \<not> IsIdleTick c ob \<and>
        (\<exists>k. bs = take blen (drop k (insObjHeader c (Hdr ob) False))))"
proof (induction c s blen rule: Read_repeat.induct)
  case (1 c s blen)
  show ?case
  proof (cases "select_Read s")
    case SelNone
    with "1.prems" show ?thesis by (simp add: Read_repeat.simps [of c s blen])
  next
    case SelStop
    with "1.prems" show ?thesis by (simp add: Read_repeat.simps [of c s blen])
  next
    case SelWork
    show ?thesis
    proof (cases "workCh s")
      case Nil
      with SelWork "1.prems" show ?thesis by (simp add: Read_repeat.simps [of c s blen])
    next
      case (Cons ob obs)
      let ?s1 = "(picked s)\<lparr>workCh := obs, sendoff := (sendoff s)\<lparr>obj := ob\<rparr>\<rparr>"
      show ?thesis
      proof (cases "IsIdleTick c ob")
        case True
        show ?thesis
        proof (cases "obs = []")
          case True
          with \<open>IsIdleTick c ob\<close> Cons SelWork "1.prems" show ?thesis
            by (simp add: Read_repeat.simps [of c s blen] deactivate_def)
        next
          case False
          have eq: "Read_repeat c s blen = Read_repeat c ?s1 blen"
            using False \<open>IsIdleTick c ob\<close> Cons SelWork
            by (simp add: Read_repeat.simps [of c s blen])
          have "bs = [] \<or>
              (\<exists>ob \<in> set (workCh ?s1). \<not> IsIdleTick c ob \<and>
                 (\<exists>k. bs = take blen (drop k (insObjHeader c (Hdr ob) False))))"
            using "1.IH" [OF SelWork Cons refl \<open>IsIdleTick c ob\<close>] False "1.prems" eq
            by simp
          then show ?thesis using Cons by auto
        qed
      next
        case False
        let ?h = "insObjHeader c (Hdr ob) False"
        have "maxheader (picked s) < length ?h \<or>
            sendHdr c (?s1\<lparr>header := ?h, sendoff := (sendoff ?s1)\<lparr>ins := inHdr c\<rparr>\<rparr>) blen
              = (Ret bs e, s')"
          using False Cons SelWork "1.prems"
          by (simp add: Read_repeat.simps [of c s blen] usePDU_def Let_def split: if_splits)
        moreover have "\<not> maxheader (picked s) < length ?h"
          using False Cons SelWork "1.prems"
          by (auto simp: Read_repeat.simps [of c s blen] usePDU_def Let_def)
        ultimately obtain k where "bs = take blen (drop k ?h)"
          using sendHdr_bytes by fastforce
        then show ?thesis using False Cons by auto
      qed
    qed
  qed
qed

lemma inSend_time [simp]: "inSend c (s\<lparr>time_inSend := b\<rparr>) = inSend c s"
  by (simp add: inSend_def)

lemma eoObj_workCh:
  "eoObj c s err = Some s' \<Longrightarrow>
     workCh s' = workCh s \<and> workCh_closed s' = workCh_closed s \<and>
     stopCh_closed s' = stopCh_closed s \<and> picks s' = picks s"
  by (auto simp: eoObj_def Let_def split: if_splits)

lemma eoObj_select: "eoObj c s err = Some s' \<Longrightarrow> select_Read s' = select_Read s"
  using eoObj_workCh [of c s err s'] by (simp add: select_Read_def)

lemma sendHdr_workCh: "workCh (snd (sendHdr c s blen)) = workCh s"
  by (simp add: sendHdr_def Let_def)

lemma sendHdr_obj: "obj (sendoff (snd (sendHdr c s blen))) = obj (sendoff s)"
  by (simp add: sendHdr_def Let_def)

lemma sendData_workCh: "workCh (snd (sendData c s blen)) = workCh s"
proof -
  have e: "workCh (snd (case eoObj c t err of None \<Rightarrow> (Panics, t) | Some u \<Rightarrow> (Ret bs er, u))) = workCh t"
    for t :: "'a Stream" and err bs er
    using eoObj_workCh [of c t err] by (cases "eoObj c t err") simp_all
  show ?thesis
    by (simp add: sendData_def Let_def e split: option.splits)
qed

lemma sendData_sending_tick:
  assumes "inEOB c \<noteq> inHdr c" "inEOB c \<noteq> inPDU c" "inEOB c \<noteq> inData c"
    and "\<not> sending_tick c s"
  shows "\<not> sending_tick c (snd (sendData c s blen))"
proof -
  have e: "\<not> sending_tick c (snd (case eoObj c t err of None \<Rightarrow> (Panics, t) | Some u \<Rightarrow> (Ret bs er, u)))"
    if "\<not> sending_tick c t" for t :: "'a Stream" and err bs er
  proof (cases "eoObj c t err")
    case None
    then show ?thesis using that by simp
  next
    case (Some u)
    then have "sendoff u = \<lparr>obj = Obj0, off = 0, ins = inEOB c\<rparr>"
      by (rule eoObj_facts(2))
    then show ?thesis using Some assms(1-3) by (simp add: sending_tick_def)
  qed
  have t: "\<not> sending_tick c (s\<lparr>readers := rs, sendoff := (sendoff s)\<lparr>off := k\<rparr>\<rparr>)" for rs k
    using assms(4) by (simp add: sending_tick_def)
  show ?thesis
    using assms(4) by (simp add: sendData_def Let_def e t split: option.splits)
qed

lemma Read_repeat_no_tick:
  "ins (sendoff s) \<noteq> inHdr c \<Longrightarrow> ins (sendoff s) \<noteq> inPDU c \<Longrightarrow> ins (sendoff s) \<noteq> inData c \<Longrightarrow>
     \<not> sending_tick c (snd (Read_repeat c s blen))"
proof (induction c s blen rule: Read_repeat.induct)
  case (1 c s blen)
  note p = "1.prems"
  show ?case
  proof (cases "select_Read s")
    case SelNone
    with p show ?thesis by (simp add: Read_repeat.simps [of c s blen] sending_tick_def)
  next
    case SelStop
    with p show ?thesis
      by (simp add: Read_repeat.simps [of c s blen] sending_tick_def picked_def)
  next
    case SelWork
    show ?thesis
    proof (cases "workCh s")
      case Nil
      with SelWork p show ?thesis
        by (simp add: Read_repeat.simps [of c s blen] sending_tick_def picked_def)
    next
      case (Cons ob obs)
      let ?s1 = "(picked s)\<lparr>workCh := obs, sendoff := (sendoff s)\<lparr>obj := ob\<rparr>\<rparr>"
      have ins1: "ins (sendoff ?s1) = ins (sendoff s)"
        by simp
      show ?thesis
      proof (cases "IsIdleTick c ob")
        case True
        show ?thesis
        proof (cases "obs = []")
          case True
          with \<open>IsIdleTick c ob\<close> Cons SelWork p show ?thesis
            by (simp add: Read_repeat.simps [of c s blen] deactivate_def sending_tick_def)
        next
          case False
          have eq: "Read_repeat c s blen = Read_repeat c ?s1 blen"
            using False \<open>IsIdleTick c ob\<close> Cons SelWork
            by (simp add: Read_repeat.simps [of c s blen])
          have "\<not> sending_tick c (snd (Read_repeat c ?s1 blen))"
            using "1.IH" [OF SelWork Cons refl \<open>IsIdleTick c ob\<close>] False p by simp
          then show ?thesis unfolding eq .
        qed
      next
        case False
        let ?h = "insObjHeader c (Hdr ob) False"
        let ?s2 = "?s1\<lparr>header := ?h, sendoff := (sendoff ?s1)\<lparr>ins := inHdr c\<rparr>\<rparr>"
        have eq: "Read_repeat c s blen =
            (if maxheader (picked s) < length ?h then (Panics, ?s1) else sendHdr c ?s2 blen)"
          using False Cons SelWork
          by (simp add: Read_repeat.simps [of c s blen] usePDU_def Let_def)
        have a: "\<not> sending_tick c ?s1"
          using False by (simp add: sending_tick_def)
        have b: "\<not> sending_tick c (snd (sendHdr c ?s2 blen))"
          using False sendHdr_obj [of c ?s2 blen] by (simp add: sending_tick_def)
        show ?thesis
          unfolding eq using a b by simp
      qed
    qed
  qed
qed

lemma Read_hdronly:
  assumes "inSend c s" "ins (sendoff s) = inData c" "IsHeaderOnly c (obj (sendoff s))"
    "\<not> IsLast c (obj (sendoff s))" "\<not> cmplCh_closed s"
  shows "\<exists>s0. eoObj c (s\<lparr>time_inSend := True\<rparr>) None = Some s0 \<and>
      Read c s blen = Read_repeat c s0 blen \<and> workCh s0 = workCh s \<and>
      select_Read s0 = select_Read s \<and> picked s0 = s0\<lparr>picks := picks (picked s)\<rparr> \<and>
      sendoff s0 = \<lparr>obj = Obj0, off = 0, ins = inEOB c\<rparr>"
proof -
  obtain s0 where s0: "eoObj c (s\<lparr>time_inSend := True\<rparr>) None = Some s0"
    using eoObj_Some [of "s\<lparr>time_inSend := True\<rparr>" c None] assms(5) by auto
  have r: "Read c s blen = Read_repeat c s0 blen"
    using assms(1-4) s0 by (simp add: Read_def Let_def)
  have w: "workCh s0 = workCh s \<and> workCh_closed s0 = workCh_closed s \<and>
     stopCh_closed s0 = stopCh_closed s \<and> picks s0 = picks s"
    using eoObj_workCh [OF s0] by simp
  have p: "picked s0 = s0\<lparr>picks := picks (picked s)\<rparr>"
    using w by (simp add: picked_def)
  show ?thesis
    using s0 r w p eoObj_select [OF s0] eoObj_facts(2) [OF s0] by simp
qed

lemma Read_no_dequeue:
  assumes "\<not> between_objects c s"
    "\<not> (ins (sendoff s) = inData c \<and> IsHeaderOnly c (obj (sendoff s)) \<and> \<not> IsLast c (obj (sendoff s)))"
  shows "workCh (snd (Read c s blen)) = workCh s"
  using assms
  by (auto simp: Read_def between_objects_def Let_def sendData_workCh sendHdr_workCh)

lemma sending_tick_time [simp]: "sending_tick c (s\<lparr>time_inSend := b\<rparr>) = sending_tick c s"
  by (simp add: sending_tick_def)

lemma eoObj_closed: "cmplCh_closed s \<Longrightarrow> eoObj c s err = None"
  by (simp add: eoObj_def Let_def)

lemma Read_sending_tick:
  assumes ord: "inHdr c < inPDU c" "inPDU c < inData c" "inData c < inEOB c"
    and nt: "\<not> sending_tick c s"
  shows "\<not> sending_tick c (snd (Read c s blen))"
proof -
  let ?s = "s\<lparr>time_inSend := True\<rparr>"
  have ins: "inSend c ?s"
    using ord by (auto simp: inSend_def)
  have nt': "\<not> sending_tick c ?s"
    using nt by simp
  consider (data) "ins (sendoff s) = inData c" "\<not> IsHeaderOnly c (obj (sendoff s))"
    | (hdronly) "ins (sendoff s) = inData c" "IsHeaderOnly c (obj (sendoff s))"
        "\<not> IsLast c (obj (sendoff s))"
    | (lastm) "ins (sendoff s) = inData c" "IsHeaderOnly c (obj (sendoff s))"
        "IsLast c (obj (sendoff s))"
    | (pdu) "ins (sendoff s) \<noteq> inData c" "ins (sendoff s) = inPDU c"
    | (hdr) "ins (sendoff s) \<noteq> inData c" "ins (sendoff s) \<noteq> inPDU c" "ins (sendoff s) = inHdr c"
    | (rep) "ins (sendoff s) \<noteq> inData c" "ins (sendoff s) \<noteq> inPDU c" "ins (sendoff s) \<noteq> inHdr c"
    by blast
  then show ?thesis
  proof cases
    case data
    have "Read c s blen = sendData c ?s blen"
      using ins data by (simp add: Read_def Let_def)
    then show ?thesis
      using sendData_sending_tick [of c ?s blen] ord nt' by simp
  next
    case hdronly
    show ?thesis
    proof (cases "eoObj c ?s None")
      case None
      then have "Read c s blen = (Panics, ?s)"
        using ins hdronly by (simp add: Read_def Let_def)
      then show ?thesis using nt' by simp
    next
      case (Some s0)
      then have r: "Read c s blen = Read_repeat c s0 blen"
        using ins hdronly by (simp add: Read_def Let_def)
      have "sendoff s0 = \<lparr>obj = Obj0, off = 0, ins = inEOB c\<rparr>"
        using Some by (rule eoObj_facts(2))
      then have "ins (sendoff s0) \<noteq> inHdr c" "ins (sendoff s0) \<noteq> inPDU c"
        "ins (sendoff s0) \<noteq> inData c"
        using ord by simp_all
      then show ?thesis
        unfolding r by (rule Read_repeat_no_tick)
    qed
  next
    case lastm
    then have "Read c s blen = (Ret [] (Some EOF), ?s)"
      using ins by (simp add: Read_def Let_def)
    then show ?thesis using nt' by simp
  next
    case pdu
    then have "Read c s blen = (Panics, ?s)"
      using ins by (simp add: Read_def Let_def)
    then show ?thesis using nt' by simp
  next
    case hdr
    then have r: "Read c s blen = sendHdr c ?s blen"
      using ins by (simp add: Read_def Let_def)
    have "\<not> IsIdleTick c (obj (sendoff ?s))"
      using nt hdr by (simp add: sending_tick_def)
    then show ?thesis
      unfolding r using sendHdr_obj [of c ?s blen] by (simp add: sending_tick_def)
  next
    case rep
    then have r: "Read c s blen = Read_repeat c ?s blen"
      using ins by (simp add: Read_def Let_def)
    show ?thesis
      unfolding r using rep by (intro Read_repeat_no_tick) simp_all
  qed
qed

lemma Read_bytes:
  assumes "Read c s blen = (Ret bs e, s')"
  shows "workCh s' = workCh s \<or> bs = [] \<or>
      (\<exists>ob \<in> set (workCh s). \<not> IsIdleTick c ob \<and>
         (\<exists>k. bs = take blen (drop k (insObjHeader c (Hdr ob) False))))"
proof (cases "between_objects c s")
  case True
  then show ?thesis
    using Read_repeat_bytes [of c "s\<lparr>time_inSend := True\<rparr>" blen bs e s'] assms
    by (simp add: Read_between)
next
  case nb: False
  then have ins: "inSend c s"
    by (simp add: between_objects_def)
  show ?thesis
  proof (cases "ins (sendoff s) = inData c \<and> IsHeaderOnly c (obj (sendoff s)) \<and>
      \<not> IsLast c (obj (sendoff s))")
    case False
    then show ?thesis
      using Read_no_dequeue [OF nb, of blen] assms by simp
  next
    case True
    show ?thesis
    proof (cases "cmplCh_closed s")
      case True
      then have "eoObj c (s\<lparr>time_inSend := True\<rparr>) None = None"
        by (intro eoObj_closed) simp
      then have "Read c s blen = (Panics, s\<lparr>time_inSend := True\<rparr>)"
        using ins \<open>ins (sendoff s) = inData c \<and> _\<close> by (simp add: Read_def Let_def)
      then show ?thesis using assms by simp
    next
      case False
      obtain s0 where "Read c s blen = Read_repeat c s0 blen" "workCh s0 = workCh s"
        using Read_hdronly [of c s blen] ins True False by blast
      then show ?thesis
        using Read_repeat_bytes [of c s0 blen bs e s'] assms by simp
    qed
  qed
qed

text \<open>
  Claim C6. \<^verbatim>\<open>idleTick\<close> (on an open SQ) enqueues one tick marker, and flips \<^verbatim>\<open>sessST\<close> to
  inactive, exactly when SQ is empty and \<^verbatim>\<open>sessST\<close> is active; otherwise it changes
  nothing. When \<^verbatim>\<open>Read\<close> receives a tick marker, it adds no bytes for it: with nothing more
  in SQ it deactivates and returns 0 bytes and a nil error; with more in SQ it goes on from
  \<^verbatim>\<open>repeat\<close> with the rest of the queue. This holds at \<^verbatim>\<open>repeat\<close> in whatever state it is
  reached: by a \<^verbatim>\<open>Read\<close> that starts between objects, and by a \<^verbatim>\<open>Read\<close> that finds a
  header-only object in its data phase, which ends that object and goes to \<^verbatim>\<open>repeat\<close> with
  SQ as it was. On every other path \<^verbatim>\<open>Read\<close> receives nothing from SQ. Whatever bytes a
  \<^verbatim>\<open>Read\<close> that receives from SQ returns are bytes of the header of an object of SQ that is
  not a tick marker; and (the phases being numbered in their order) no \<^verbatim>\<open>Read\<close> leaves a
  tick marker as the object being sent, when it did not find one: a tick marker is never a
  frame of the output.
\<close>

theorem idle_tick_is_no_frame:
  "(\<not> workCh_closed s \<longrightarrow>
      idleTick c s =
        (Returned,
         if workCh s = [] \<and> sessST s = active
         then s\<lparr>sessST := inactive, workCh := [marker (tickMarker c)]\<rparr> else s)) \<and>
   IsIdleTick c (marker (tickMarker c)) \<and>
   (between_objects c s \<and> select_Read s = SelWork \<and> workCh s = [tk] \<and> IsIdleTick c tk \<longrightarrow>
      Read c s blen =
        (Ret [] None,
         (picked (s\<lparr>time_inSend := True\<rparr>))
           \<lparr>workCh := [], sendoff := (sendoff s)\<lparr>obj := tk\<rparr>, sessST := inactive\<rparr>)) \<and>
   (between_objects c s \<and> select_Read s = SelWork \<and> workCh s = tk # ob # obs \<and>
    IsIdleTick c tk \<longrightarrow>
      Read c s blen =
        Read_repeat c
          ((picked (s\<lparr>time_inSend := True\<rparr>))
             \<lparr>workCh := ob # obs, sendoff := (sendoff s)\<lparr>obj := tk\<rparr>\<rparr>) blen) \<and>
   (between_objects c s \<and> Read c s blen = (Ret bs e, s') \<longrightarrow>
      bs = [] \<or>
      (\<exists>ob \<in> set (workCh s). \<not> IsIdleTick c ob \<and>
         (\<exists>k. bs = take blen (drop k (insObjHeader c (Hdr ob) False))))) \<and>
   (select_Read s = SelWork \<and> workCh s = [tk] \<and> IsIdleTick c tk \<longrightarrow>
      Read_repeat c s blen =
        (Ret [] None,
         (picked s)\<lparr>workCh := [], sendoff := (sendoff s)\<lparr>obj := tk\<rparr>, sessST := inactive\<rparr>)) \<and>
   (select_Read s = SelWork \<and> workCh s = tk # ob # obs \<and> IsIdleTick c tk \<longrightarrow>
      Read_repeat c s blen =
        Read_repeat c ((picked s)\<lparr>workCh := ob # obs, sendoff := (sendoff s)\<lparr>obj := tk\<rparr>\<rparr>) blen) \<and>
   (Read_repeat c s blen = (Ret bs e, s') \<longrightarrow>
      bs = [] \<or>
      (\<exists>ob \<in> set (workCh s). \<not> IsIdleTick c ob \<and>
         (\<exists>k. bs = take blen (drop k (insObjHeader c (Hdr ob) False))))) \<and>
   (inSend c s \<and> ins (sendoff s) = inData c \<and> IsHeaderOnly c (obj (sendoff s)) \<and>
    \<not> IsLast c (obj (sendoff s)) \<and> \<not> cmplCh_closed s \<longrightarrow>
      (\<exists>s0. eoObj c (s\<lparr>time_inSend := True\<rparr>) None = Some s0 \<and>
         Read c s blen = Read_repeat c s0 blen \<and> workCh s0 = workCh s \<and>
         select_Read s0 = select_Read s \<and>
         sendoff s0 = \<lparr>obj = Obj0, off = 0, ins = inEOB c\<rparr>)) \<and>
   (inSend c s \<and> ins (sendoff s) = inData c \<and> IsHeaderOnly c (obj (sendoff s)) \<and>
    \<not> IsLast c (obj (sendoff s)) \<and> \<not> cmplCh_closed s \<and>
    select_Read s = SelWork \<and> workCh s = [tk] \<and> IsIdleTick c tk \<longrightarrow>
      fst (Read c s blen) = Ret [] None \<and> workCh (snd (Read c s blen)) = [] \<and>
      sessST (snd (Read c s blen)) = inactive \<and>
      sendoff (snd (Read c s blen)) = \<lparr>obj = tk, off = 0, ins = inEOB c\<rparr>) \<and>
   (\<not> between_objects c s \<and>
    \<not> (ins (sendoff s) = inData c \<and> IsHeaderOnly c (obj (sendoff s)) \<and>
       \<not> IsLast c (obj (sendoff s))) \<longrightarrow>
      workCh (snd (Read c s blen)) = workCh s) \<and>
   (Read c s blen = (Ret bs e, s') \<longrightarrow>
      workCh s' = workCh s \<or> bs = [] \<or>
      (\<exists>ob \<in> set (workCh s). \<not> IsIdleTick c ob \<and>
         (\<exists>k. bs = take blen (drop k (insObjHeader c (Hdr ob) False))))) \<and>
   (inHdr c < inPDU c \<and> inPDU c < inData c \<and> inData c < inEOB c \<and> \<not> sending_tick c s \<longrightarrow>
      \<not> sending_tick c (snd (Read c s blen)))"
proof -
  have a: "idleTick c s =
        (Returned,
         if workCh s = [] \<and> sessST s = active
         then s\<lparr>sessST := inactive, workCh := [marker (tickMarker c)]\<rparr> else s)"
    if "\<not> workCh_closed s"
    using that by (simp add: idleTick_def Let_def)
  have b: "IsIdleTick c (marker (tickMarker c))"
    by (simp add: IsIdleTick_def marker_def)
  have r1: "Read_repeat c t blen =
        (Ret [] None,
         (picked t)\<lparr>workCh := [], sendoff := (sendoff t)\<lparr>obj := tk\<rparr>, sessST := inactive\<rparr>)"
    if "select_Read t = SelWork" "workCh t = [tk]" "IsIdleTick c tk" for t :: "'a Stream"
    using that by (simp add: Read_repeat.simps deactivate_def)
  have r2: "Read_repeat c t blen =
        Read_repeat c ((picked t)\<lparr>workCh := ob # obs, sendoff := (sendoff t)\<lparr>obj := tk\<rparr>\<rparr>) blen"
    if "select_Read t = SelWork" "workCh t = tk # ob # obs" "IsIdleTick c tk" for t :: "'a Stream"
    using that by (simp add: Read_repeat.simps [of c t blen])
  have c1: "Read c s blen =
        (Ret [] None,
         (picked (s\<lparr>time_inSend := True\<rparr>))
           \<lparr>workCh := [], sendoff := (sendoff s)\<lparr>obj := tk\<rparr>, sessST := inactive\<rparr>)"
    if "between_objects c s" "select_Read s = SelWork" "workCh s = [tk]" "IsIdleTick c tk"
    using that r1 [of "s\<lparr>time_inSend := True\<rparr>"] by (simp add: Read_between)
  have c2: "Read c s blen =
        Read_repeat c
          ((picked (s\<lparr>time_inSend := True\<rparr>))
             \<lparr>workCh := ob # obs, sendoff := (sendoff s)\<lparr>obj := tk\<rparr>\<rparr>) blen"
    if "between_objects c s" "select_Read s = SelWork" "workCh s = tk # ob # obs" "IsIdleTick c tk"
    using that r2 [of "s\<lparr>time_inSend := True\<rparr>"] by (simp add: Read_between)
  have d: "bs = [] \<or>
      (\<exists>ob \<in> set (workCh s). \<not> IsIdleTick c ob \<and>
         (\<exists>k. bs = take blen (drop k (insObjHeader c (Hdr ob) False))))"
    if "between_objects c s" "Read c s blen = (Ret bs e, s')"
    using Read_repeat_bytes [of c "s\<lparr>time_inSend := True\<rparr>" blen bs e s'] that
    by (simp add: Read_between)
  have r3: "bs = [] \<or>
      (\<exists>ob \<in> set (workCh s). \<not> IsIdleTick c ob \<and>
         (\<exists>k. bs = take blen (drop k (insObjHeader c (Hdr ob) False))))"
    if "Read_repeat c s blen = (Ret bs e, s')"
    using that by (rule Read_repeat_bytes)
  have h1: "\<exists>s0. eoObj c (s\<lparr>time_inSend := True\<rparr>) None = Some s0 \<and>
         Read c s blen = Read_repeat c s0 blen \<and> workCh s0 = workCh s \<and>
         select_Read s0 = select_Read s \<and>
         sendoff s0 = \<lparr>obj = Obj0, off = 0, ins = inEOB c\<rparr>"
    if "inSend c s" "ins (sendoff s) = inData c" "IsHeaderOnly c (obj (sendoff s))"
      "\<not> IsLast c (obj (sendoff s))" "\<not> cmplCh_closed s"
    using Read_hdronly [OF that, of blen] by blast
  have h2: "fst (Read c s blen) = Ret [] None \<and> workCh (snd (Read c s blen)) = [] \<and>
      sessST (snd (Read c s blen)) = inactive \<and>
      sendoff (snd (Read c s blen)) = \<lparr>obj = tk, off = 0, ins = inEOB c\<rparr>"
    if "inSend c s" "ins (sendoff s) = inData c" "IsHeaderOnly c (obj (sendoff s))"
      "\<not> IsLast c (obj (sendoff s))" "\<not> cmplCh_closed s"
      "select_Read s = SelWork" "workCh s = [tk]" "IsIdleTick c tk"
  proof -
    note prem = that
    obtain s0 where s0: "Read c s blen = Read_repeat c s0 blen" "workCh s0 = workCh s"
      "select_Read s0 = select_Read s" "sendoff s0 = \<lparr>obj = Obj0, off = 0, ins = inEOB c\<rparr>"
      using h1 [OF prem(1-5)] by blast
    have "Read_repeat c s0 blen =
        (Ret [] None,
         (picked s0)\<lparr>workCh := [], sendoff := (sendoff s0)\<lparr>obj := tk\<rparr>, sessST := inactive\<rparr>)"
      using s0 prem(6-8) by (intro r1) simp_all
    then show ?thesis
      by (simp add: s0)
  qed
  have n: "workCh (snd (Read c s blen)) = workCh s"
    if "\<not> between_objects c s"
      "\<not> (ins (sendoff s) = inData c \<and> IsHeaderOnly c (obj (sendoff s)) \<and>
         \<not> IsLast c (obj (sendoff s)))"
    using that by (rule Read_no_dequeue)
  have g: "workCh s' = workCh s \<or> bs = [] \<or>
      (\<exists>ob \<in> set (workCh s). \<not> IsIdleTick c ob \<and>
         (\<exists>k. bs = take blen (drop k (insObjHeader c (Hdr ob) False))))"
    if "Read c s blen = (Ret bs e, s')"
    using that by (rule Read_bytes)
  have i: "\<not> sending_tick c (snd (Read c s blen))"
    if "inHdr c < inPDU c" "inPDU c < inData c" "inData c < inEOB c" "\<not> sending_tick c s"
    using that by (rule Read_sending_tick)
  show ?thesis
    apply (intro conjI impI)
    subgoal using a by blast
    subgoal using b by blast
    subgoal using c1 by blast
    subgoal using c2 by blast
    subgoal using d by blast
    subgoal using r1 [of s] by blast
    subgoal using r2 [of s] by blast
    subgoal using r3 by blast
    subgoal using h1 by blast
    subgoal using h2 by blast
    subgoal using h2 by blast
    subgoal using h2 by blast
    subgoal using h2 by blast
    subgoal using n by blast
    subgoal using g by blast
    subgoal using i by blast
    done
qed

theorem idle_tick_is_no_frame_witness:
  "idleTick ex_extern ex_scq =
     (Returned, ex_scq\<lparr>sessST := inactive, workCh := [marker (tickMarker ex_extern)]\<rparr>) \<and>
   Read ex_extern (snd (idleTick ex_extern ex_scq)) 16 =
     (Ret [] None,
      ex_scq\<lparr>sessST := inactive, workCh := [], time_inSend := True,
        sendoff := \<lparr>obj = marker (tickMarker ex_extern), off = 0, ins = 0\<rparr>\<rparr>) \<and>
   fst (Read ex_extern ex_ticked 16) = Ret [98] None \<and>
   insObjHeader ex_extern (Hdr ex_b) False = [98] \<and>
   workCh (snd (Read ex_extern ex_ticked 16)) = [] \<and>
   fst (Read ex_extern ex_hdronly 16) = Ret [] None \<and>
   workCh (snd (Read ex_extern ex_hdronly 16)) = [] \<and>
   sessST (snd (Read ex_extern ex_hdronly 16)) = inactive \<and>
   sendoff (snd (Read ex_extern ex_hdronly 16)) =
     \<lparr>obj = marker (tickMarker ex_extern), off = 0, ins = 4\<rparr> \<and>
   cmplCh (snd (Read ex_extern ex_hdronly 16)) = [\<lparr>cmpl_obj = ex_obj ''x'' 0, cmpl_err = None\<rparr>] \<and>
   \<not> sending_tick ex_extern (snd (Read ex_extern ex_hdronly 16))"
proof -
  have a: "idleTick ex_extern ex_scq =
     (Returned, ex_scq\<lparr>sessST := inactive, workCh := [marker (tickMarker ex_extern)]\<rparr>)"
    using idle_tick_is_no_frame [where s = ex_scq and c = ex_extern]
    by (simp add: ex_scq_def ex_stream_def)
  have b: "Read ex_extern (snd (idleTick ex_extern ex_scq)) 16 =
     (Ret [] None,
      ex_scq\<lparr>sessST := inactive, workCh := [], time_inSend := True,
        sendoff := \<lparr>obj = marker (tickMarker ex_extern), off = 0, ins = 0\<rparr>\<rparr>)"
    unfolding a
    using idle_tick_is_no_frame [where c = ex_extern and blen = 16
        and s = "ex_scq\<lparr>sessST := inactive, workCh := [marker (tickMarker ex_extern)]\<rparr>"
        and tk = "marker (tickMarker ex_extern)"]
    by (simp add: between_objects_def inSend_def select_Read_def picked_def
        ex_scq_def ex_stream_def ex_extern_def)
  have c: "Read ex_extern ex_ticked 16 =
     Read_repeat ex_extern
       (ex_scq\<lparr>time_inSend := True, workCh := [ex_b],
          sendoff := \<lparr>obj = marker (tickMarker ex_extern), off = 0, ins = 0\<rparr>\<rparr>) 16"
    using idle_tick_is_no_frame [where c = ex_extern and blen = 16 and s = ex_ticked
        and tk = "marker (tickMarker ex_extern)" and ob = ex_b and obs = "[]"]
    by (simp add: between_objects_def inSend_def select_Read_def picked_def
        ex_ticked_def ex_scq_def ex_stream_def ex_extern_def)
  have d: "Read_repeat ex_extern
       (ex_scq\<lparr>time_inSend := True, workCh := [ex_b],
          sendoff := \<lparr>obj = marker (tickMarker ex_extern), off = 0, ins = 0\<rparr>\<rparr>) 16 =
     (Ret [98] None,
      ex_scq\<lparr>time_inSend := True, workCh := [], header := [98],
        stats_Offset := 1, sendoff := \<lparr>obj = ex_b, off = 0, ins = 3\<rparr>\<rparr>)"
    by (simp add: Read_repeat.simps select_Read_def picked_def IsIdleTick_def sendHdr_def
        usePDU_def IsHeaderOnly_def IsLast_def hdr_IsLast_def Let_def ex_defs)
  have e: "insObjHeader ex_extern (Hdr ex_b) False = [98]"
    by (simp add: ex_defs)
  have h: "inSend ex_extern ex_hdronly \<and> ins (sendoff ex_hdronly) = inData ex_extern \<and>
      IsHeaderOnly ex_extern (obj (sendoff ex_hdronly)) \<and>
      \<not> IsLast ex_extern (obj (sendoff ex_hdronly)) \<and> \<not> cmplCh_closed ex_hdronly \<and>
      select_Read ex_hdronly = SelWork \<and> workCh ex_hdronly = [marker (tickMarker ex_extern)] \<and>
      IsIdleTick ex_extern (marker (tickMarker ex_extern)) \<and>
      inHdr ex_extern < inPDU ex_extern \<and> inPDU ex_extern < inData ex_extern \<and>
      inData ex_extern < inEOB ex_extern \<and> \<not> sending_tick ex_extern ex_hdronly \<and>
      inEOB ex_extern = 4"
    by (simp add: inSend_def IsHeaderOnly_def IsLast_def hdr_IsLast_def IsIdleTick_def
        select_Read_def sending_tick_def ex_hdronly_def ex_defs)
  have f: "fst (Read ex_extern ex_hdronly 16) = Ret [] None \<and>
      workCh (snd (Read ex_extern ex_hdronly 16)) = [] \<and>
      sessST (snd (Read ex_extern ex_hdronly 16)) = inactive \<and>
      sendoff (snd (Read ex_extern ex_hdronly 16)) =
        \<lparr>obj = marker (tickMarker ex_extern), off = 0, ins = 4\<rparr> \<and>
      \<not> sending_tick ex_extern (snd (Read ex_extern ex_hdronly 16))"
    using idle_tick_is_no_frame [where c = ex_extern and blen = 16 and s = ex_hdronly
        and tk = "marker (tickMarker ex_extern)"] h
    by simp
  have g: "cmplCh (snd (Read ex_extern ex_hdronly 16)) =
      [\<lparr>cmpl_obj = ex_obj ''x'' 0, cmpl_err = None\<rparr>]"
    by (simp add: Read_def inSend_def IsHeaderOnly_def IsLast_def hdr_IsLast_def IsUnsized_def
        hdr_IsUnsized_def eoObj_def Read_repeat.simps select_Read_def picked_def IsIdleTick_def
        deactivate_def Let_def ex_hdronly_def ex_defs)
  show ?thesis
    using a b c d e f g by simp
qed

subsection \<open>The compressing reader\<close>




lemma picked_lz_frame [simp]:
  "events (picked s) = events s" "stats_CompressedSize (picked s) = stats_CompressedSize s"
  by (simp_all add: picked_def)















end
